theory Spec2Isabelle
  imports Complex_Main
begin

section \<open>JavaScript numbers\<close>

text \<open>
  The values of the JavaScript type \<open>number\<close> that the component computes with: a finite
  value, the two infinities and NaN. A finite value is a real number; the numbers a
  program holds are the reals that binary64 represents. The operators are those of
  IEEE 754, which JavaScript follows: the special cases (a zero divisor, an operand that
  is NaN or infinite) are written out, and the exact result of an operation on finite
  operands is rounded to the nearest binary64 value, ties to the even significand, or to
  an infinity when the rounded value is out of range. The sign of zero is left out (the
  zeros of this component are the literal \<open>0\<close> and sums of byte counts, all \<open>+0\<close>).
\<close>

datatype number = Fin real | PosInf | NegInf | NaN

text \<open>
  The binade of a real: the largest exponent \<open>e\<close> from \<open>-1022\<close> (the subnormal range) to
  \<open>1023\<close> with \<open>2^e\<close> at most the magnitude, found from the top down; \<open>-1022\<close> when there
  is none. The binary64 values of a binade are the multiples of \<open>2^(e - 52)\<close>.
\<close>

fun binade :: "nat \<Rightarrow> real \<Rightarrow> int" where
  "binade 0 x = - 1022"
| "binade (Suc n) x =
     (if 2 powi (int (Suc n) - 1022) \<le> \<bar>x\<bar> then int (Suc n) - 1022 else binade n x)"

definition expo :: "real \<Rightarrow> int" where
  "expo x = binade 2045 x"

definition ulp :: "real \<Rightarrow> real" where
  "ulp x = 2 powi (expo x - 52)"

text \<open>The nearest integer, the even one of two that are equally near.\<close>

definition round_even :: "real \<Rightarrow> int" where
  "round_even y =
     (let f = \<lfloor>y\<rfloor>; r = y - of_int f
      in if r < 1 / 2 then f
         else if 1 / 2 < r then f + 1
         else if even f then f else f + 1)"

definition round64 :: "real \<Rightarrow> real" where
  "round64 x = ulp x * of_int (round_even (x / ulp x))"

text \<open>
  The number an exact result becomes: the rounded value, or an infinity when the rounded
  value reaches \<open>2^1024\<close>.
\<close>

definition fin :: "real \<Rightarrow> number" where
  "fin x =
     (let r = round64 x
      in if 2 ^ 1024 \<le> \<bar>r\<bar> then (if 0 < r then PosInf else NegInf) else Fin r)"

fun num_add :: "number \<Rightarrow> number \<Rightarrow> number" where
  "num_add NaN y = NaN"
| "num_add x NaN = NaN"
| "num_add (Fin a) (Fin b) = fin (a + b)"
| "num_add PosInf NegInf = NaN"
| "num_add NegInf PosInf = NaN"
| "num_add PosInf y = PosInf"
| "num_add x PosInf = PosInf"
| "num_add NegInf y = NegInf"
| "num_add x NegInf = NegInf"

fun num_neg :: "number \<Rightarrow> number" where
  "num_neg (Fin a) = Fin (- a)"
| "num_neg PosInf = NegInf"
| "num_neg NegInf = PosInf"
| "num_neg NaN = NaN"

fun num_mul :: "number \<Rightarrow> number \<Rightarrow> number" where
  "num_mul NaN y = NaN"
| "num_mul x NaN = NaN"
| "num_mul (Fin a) (Fin b) = fin (a * b)"
| "num_mul (Fin a) y = (if a = 0 then NaN else if 0 < a then y else num_neg y)"
| "num_mul x (Fin b) = (if b = 0 then NaN else if 0 < b then x else num_neg x)"
| "num_mul PosInf y = y"
| "num_mul NegInf y = num_neg y"

fun num_div :: "number \<Rightarrow> number \<Rightarrow> number" where
  "num_div NaN y = NaN"
| "num_div x NaN = NaN"
| "num_div (Fin a) (Fin b) =
     (if b = 0 then (if a = 0 then NaN else if 0 < a then PosInf else NegInf)
      else fin (a / b))"
| "num_div (Fin a) y = Fin 0"
| "num_div x (Fin b) = (if 0 \<le> b then x else num_neg x)"
| "num_div x y = NaN"

text \<open>
  The remainder operator \<open>%\<close>: the result has the sign of the dividend, and the exact
  remainder of two binary64 values is a binary64 value, so nothing is rounded.
\<close>

definition trunc :: "real \<Rightarrow> int" where
  "trunc x = (if 0 \<le> x then \<lfloor>x\<rfloor> else \<lceil>x\<rceil>)"

fun num_mod :: "number \<Rightarrow> number \<Rightarrow> number" where
  "num_mod NaN y = NaN"
| "num_mod x NaN = NaN"
| "num_mod (Fin a) (Fin b) = (if b = 0 then NaN else Fin (a - b * of_int (trunc (a / b))))"
| "num_mod (Fin a) y = Fin a"
| "num_mod x y = NaN"

text \<open>What \<open>!!x\<close> and a condition make of a number: \<open>0\<close> and NaN are falsy.\<close>

fun truthy :: "number \<Rightarrow> bool" where
  "truthy (Fin a) = (a \<noteq> 0)"
| "truthy NaN = False"
| "truthy x = True"

fun finite_number :: "number \<Rightarrow> bool" where
  "finite_number (Fin a) = True"
| "finite_number x = False"


section \<open>The profile record\<close>

text \<open>
  Modelled from the spec: the types \<open>Profile.Item\<close> and \<open>Profile.Option\<close> are declared in
  the package \<open>@nyanpasu/interface\<close>, whose source is not part of the component. The fields
  are the ones the component reads, with the optionality the spec's data model gives them.

  The option object of an item is reached through a reference: \<open>option\<close> holds the address
  of the object in a store of option objects, so that two names for one object are two
  copies of one address.
\<close>

record profile_option =
  with_proxy :: bool
  self_proxy :: bool

record profile_extra =
  download :: number
  upload :: number
  total :: number
  expire :: number

type_synonym addr = nat

record profile_item =
  uid :: string
  type :: string
  name :: string
  desc :: string
  url :: string
  updated :: "number option"
  option :: "addr option"
  extra :: "profile_extra option"


section \<open>Traffic computation\<close>

record traffic =
  progress :: number
  total :: number
  used :: number

text \<open>\<open>calc\<close> (lines 63 to 79). An object is truthy, so \<open>if (item.extra)\<close> asks for presence.\<close>

definition calc :: "profile_item \<Rightarrow> traffic" where
  "calc item =
     (case extra item of
        None \<Rightarrow> \<lparr>progress = Fin 0, total = Fin 0, used = Fin 0\<rparr>
      | Some e \<Rightarrow>
          (let t = profile_extra.total e;
               u = num_add (download e) (upload e);
               p = num_mul (num_div u t) (Fin 100)
           in \<lparr>progress = p, total = t, used = u\<rparr>))"

text \<open>
  The number behind the percentage label (line 258), before \<open>toFixed(2)\<close> prints it:
  the quotient is taken again from \<open>used\<close> and \<open>total\<close>.
\<close>

definition percent_label :: "profile_item \<Rightarrow> number" where
  "percent_label item =
     num_mul (num_div (traffic.used (calc item)) (traffic.total (calc item))) (Fin 100)"


section \<open>The card's state and its collaborators\<close>

text \<open>
  What a rejected promise carries: an instance of \<open>Error\<close> with its name and message, or any
  other thrown value, of which the handlers only take \<open>String(err)\<close> or print it whole.
\<close>

datatype thrown = Error (err_name: string) (err_message: string) | Thrown (to_string: string)

datatype result = Resolved | Rejected thrown

text \<open>
  The texts handed to \<open>message\<close>, all with the title \<open>t("Error")\<close> and the type \<open>"error"\<close>:
  the translated \<open>FetchError\<close> text, \<open>Error setting profile:\<close> followed by a string, and
  \<open>Delete failed:\<close> followed by the thrown value as JSON.
\<close>

datatype notice = FetchErrorNotice | ErrorSettingProfile string | DeleteFailed thrown

text \<open>The calls the card makes on its collaborators, in the order it makes them.\<close>

datatype effect =
    SetProfilesConfig string
  | DeleteConnections
  | UpdateProfile string profile_option
  | DeleteProfile string
  | ViewProfile string
  | OnClickChains profile_item
  | Message notice

text \<open>
  An awaited backend call is a suspended handler: the continuation says which \<open>await\<close> of
  which handler is waiting for the call to settle.
\<close>

datatype continuation =
    AfterSetProfilesConfig
  | AfterDeleteConnections
  | AfterUpdateProfile
  | AfterDeleteProfile

text \<open>The three handlers wrapped by \<open>useLockFn\<close>, each with a lock of its own.\<close>

datatype lock = HandleSelect | HandleUpdate | HandleDelete

fun owner :: "continuation \<Rightarrow> lock" where
  "owner AfterSetProfilesConfig = HandleSelect"
| "owner AfterDeleteConnections = HandleSelect"
| "owner AfterUpdateProfile = HandleUpdate"
| "owner AfterDeleteProfile = HandleDelete"

text \<open>
  One mounted card: its props (\<open>item\<close>, \<open>selected\<close>, \<open>chainsSelected\<close>; an omitted flag is
  \<open>undefined\<close>, which every use treats as false), the store of option objects the item
  points into, the state of the hooks (\<open>loading\<close>, \<open>anchorEl\<close>, \<open>open\<close>, the \<open>lockRef\<close> of
  each \<open>useLockFn\<close>), the backend calls that have not settled yet, the calls made so far,
  and the rejections that no handler caught.
\<close>

record card =
  item :: profile_item
  selected :: bool
  chainsSelected :: bool
  heap :: "profile_option list"
  loading_update :: bool
  loading_card :: bool
  anchorEl :: "nat option"
  dialog_open :: bool
  lock_select :: bool
  lock_update :: bool
  lock_delete :: bool
  pending :: "continuation list"
  trace :: "effect list"
  unhandled :: "thrown list"

definition init_card :: "profile_item \<Rightarrow> bool \<Rightarrow> bool \<Rightarrow> profile_option list \<Rightarrow> card" where
  "init_card it sel csel h =
     \<lparr>item = it, selected = sel, chainsSelected = csel, heap = h,
      loading_update = False, loading_card = False, anchorEl = None, dialog_open = False,
      lock_select = False, lock_update = False, lock_delete = False,
      pending = [], trace = [], unhandled = []\<rparr>"

fun locked :: "lock \<Rightarrow> card \<Rightarrow> bool" where
  "locked HandleSelect s = lock_select s"
| "locked HandleUpdate s = lock_update s"
| "locked HandleDelete s = lock_delete s"

fun set_lock :: "lock \<Rightarrow> bool \<Rightarrow> card \<Rightarrow> card" where
  "set_lock HandleSelect b s = s\<lparr>lock_select := b\<rparr>"
| "set_lock HandleUpdate b s = s\<lparr>lock_update := b\<rparr>"
| "set_lock HandleDelete b s = s\<lparr>lock_delete := b\<rparr>"

definition call :: "effect \<Rightarrow> card \<Rightarrow> card" where
  "call c s = s\<lparr>trace := trace s @ [c]\<rparr>"

definition await :: "continuation \<Rightarrow> card \<Rightarrow> card" where
  "await k s = s\<lparr>pending := pending s @ [k]\<rparr>"

text \<open>The number of unsettled backend calls made by one handler.\<close>

definition in_flight :: "lock \<Rightarrow> card \<Rightarrow> nat" where
  "in_flight l s = length (filter (\<lambda>k. owner k = l) (pending s))"


section \<open>The lock around a handler\<close>

text \<open>
  An async function runs up to its first \<open>await\<close> when it is called; it has then either
  finished or is suspended on a backend call.
\<close>

datatype outcome = Finished | Suspended

text \<open>
  Modelled from the spec: \<open>useLockFn\<close> is imported from the library \<open>ahooks\<close>. Spec 4.2:
  if an invocation is already in flight, a new trigger is a no-op, dropped and not queued;
  the lock is released when the invocation completes, whether it succeeds or fails.
  A handler that finishes without suspending releases the lock before any other event
  can be handled.
\<close>

definition useLockFn :: "lock \<Rightarrow> (card \<Rightarrow> card \<times> outcome) \<Rightarrow> card \<Rightarrow> card" where
  "useLockFn l fn s =
     (if locked l s then s
      else (case fn (set_lock l True s) of
              (s', Finished) \<Rightarrow> set_lock l False s'
            | (s', Suspended) \<Rightarrow> s'))"

text \<open>
  Modelled from the spec: the release at the end of \<open>useLockFn\<close>, for a handler that was
  suspended: on completion, success or failure, the lock is free again.
\<close>

definition release :: "lock \<Rightarrow> card \<Rightarrow> card" where
  "release l s = set_lock l False s"


section \<open>The handlers\<close>

text \<open>
  \<open>handleSelect\<close> (lines 99 to 126), up to its first \<open>await\<close>: nothing on a selected
  card; otherwise \<open>loading.card\<close> is raised and \<open>setProfilesConfig\<close> is called.
\<close>

definition handleSelect_fn :: "card \<Rightarrow> card \<times> outcome" where
  "handleSelect_fn s =
     (if selected s then (s, Finished)
      else (await AfterSetProfilesConfig
              (call (SetProfilesConfig (uid (item s))) (s\<lparr>loading_card := True\<rparr>)),
            Suspended))"

definition handleSelect :: "card \<Rightarrow> card" where
  "handleSelect = useLockFn HandleSelect handleSelect_fn"

text \<open>The \<open>catch\<close> and the \<open>finally\<close> of \<open>handleSelect\<close> (lines 110 to 125).\<close>

fun is_fetch_error :: "thrown \<Rightarrow> bool" where
  "is_fetch_error (Error n m) = (n = ''FetchError'')"
| "is_fetch_error (Thrown v) = False"

fun error_text :: "thrown \<Rightarrow> string" where
  "error_text (Error n m) = m"
| "error_text (Thrown v) = v"

definition handleSelect_catch :: "thrown \<Rightarrow> card \<Rightarrow> card" where
  "handleSelect_catch err s =
     call (Message (if is_fetch_error err then FetchErrorNotice
                    else ErrorSettingProfile (error_text err))) s"

definition handleSelect_finally :: "card \<Rightarrow> card" where
  "handleSelect_finally s = s\<lparr>loading_card := False\<rparr>"

text \<open>
  The options of an update (lines 129 to 142). \<open>options\<close> is the item's own option object
  when the item has one, and a new object otherwise; the two assignments write into the
  object \<open>options\<close> names. A reference of a running program always names an object of the
  store, so a lookup is only meant at an address below the length of the store.
\<close>

definition alloc :: "profile_option \<Rightarrow> profile_option list \<Rightarrow> profile_option list \<times> addr" where
  "alloc v h = (h @ [v], length h)"

definition store_with_proxy :: "addr \<Rightarrow> bool \<Rightarrow> profile_option list \<Rightarrow> profile_option list" where
  "store_with_proxy a b h = h[a := (h ! a)\<lparr>with_proxy := b\<rparr>]"

definition store_self_proxy :: "addr \<Rightarrow> bool \<Rightarrow> profile_option list \<Rightarrow> profile_option list" where
  "store_self_proxy a b h = h[a := (h ! a)\<lparr>self_proxy := b\<rparr>]"

definition handleUpdate_options ::
  "profile_option list \<Rightarrow> profile_item \<Rightarrow> bool \<Rightarrow> profile_option list \<times> addr" where
  "handleUpdate_options h it proxy =
     (let (h1, options) =
            (case option it of
               Some a \<Rightarrow> (h, a)
             | None \<Rightarrow> alloc \<lparr>with_proxy = False, self_proxy = False\<rparr> h)
      in if proxy then
           (if (case option it of Some a \<Rightarrow> self_proxy (h1 ! a) | None \<Rightarrow> False)
            then (store_self_proxy options True (store_with_proxy options False h1), options)
            else (store_self_proxy options False (store_with_proxy options True h1), options))
         else (h1, options))"

text \<open>
  \<open>handleUpdate\<close> (lines 128 to 151), up to its \<open>await\<close>. The call carries the value the
  object has when the call is made.
\<close>

definition handleUpdate_fn :: "bool \<Rightarrow> card \<Rightarrow> card \<times> outcome" where
  "handleUpdate_fn proxy s =
     (let (h, options) = handleUpdate_options (heap s) (item s) proxy
      in (await AfterUpdateProfile
            (call (UpdateProfile (uid (item s)) (h ! options))
               (s\<lparr>heap := h, loading_update := True\<rparr>)),
          Suspended))"

definition handleUpdate :: "bool \<Rightarrow> card \<Rightarrow> card" where
  "handleUpdate proxy = useLockFn HandleUpdate (handleUpdate_fn proxy)"

definition handleUpdate_finally :: "card \<Rightarrow> card" where
  "handleUpdate_finally s = s\<lparr>loading_update := False\<rparr>"

text \<open>\<open>handleDelete\<close> (lines 153 to 162).\<close>

definition handleDelete_fn :: "card \<Rightarrow> card \<times> outcome" where
  "handleDelete_fn s =
     (await AfterDeleteProfile (call (DeleteProfile (uid (item s))) s), Suspended)"

definition handleDelete :: "card \<Rightarrow> card" where
  "handleDelete = useLockFn HandleDelete handleDelete_fn"

definition handleDelete_catch :: "thrown \<Rightarrow> card \<Rightarrow> card" where
  "handleDelete_catch err s = call (Message (DeleteFailed err)) s"

text \<open>
  A backend call settles and the handler that awaited it runs on. After \<open>setProfilesConfig\<close>
  has resolved, \<open>handleSelect\<close> calls \<open>deleteConnections\<close> and waits again; a rejection of
  either call goes to its \<open>catch\<close>. \<open>handleUpdate\<close> has no \<open>catch\<close>: after its \<open>finally\<close> the
  rejection leaves the handler and the lock wrapper, and nothing handles it. The
  continuation of a handler runs to the end of the wrapper before another event is taken.
\<close>

fun resume :: "continuation \<Rightarrow> result \<Rightarrow> card \<Rightarrow> card" where
  "resume AfterSetProfilesConfig Resolved s =
     await AfterDeleteConnections (call DeleteConnections s)"
| "resume AfterSetProfilesConfig (Rejected err) s =
     release HandleSelect (handleSelect_finally (handleSelect_catch err s))"
| "resume AfterDeleteConnections Resolved s =
     release HandleSelect (handleSelect_finally s)"
| "resume AfterDeleteConnections (Rejected err) s =
     release HandleSelect (handleSelect_finally (handleSelect_catch err s))"
| "resume AfterUpdateProfile Resolved s =
     release HandleUpdate (handleUpdate_finally s)"
| "resume AfterUpdateProfile (Rejected err) s =
     (release HandleUpdate (handleUpdate_finally s))\<lparr>unhandled := unhandled s @ [err]\<rparr>"
| "resume AfterDeleteProfile Resolved s =
     release HandleDelete s"
| "resume AfterDeleteProfile (Rejected err) s =
     release HandleDelete (handleDelete_catch err s)"


section \<open>The menu and the events of a card\<close>

text \<open>The keys of \<open>menuMapping\<close> (lines 89 to 97), in its order, and what each is bound to.\<close>

datatype menu_key = Select | EditInfo | ProxyChains | OpenFile | Update | UpdateProxy | Delete

fun menuMapping :: "menu_key \<Rightarrow> card \<Rightarrow> card" where
  "menuMapping Select s = handleSelect s"
| "menuMapping EditInfo s = s\<lparr>dialog_open := True\<rparr>"
| "menuMapping ProxyChains s = call (OnClickChains (item s)) s"
| "menuMapping OpenFile s = call (ViewProfile (uid (item s))) s"
| "menuMapping Update s = handleUpdate False s"
| "menuMapping UpdateProxy s = handleUpdate True s"
| "menuMapping Delete s = handleDelete s"

text \<open>\<open>handleClick\<close> of the menu (lines 165 to 168): the menu closes, then the entry runs.\<close>

definition handleClick :: "menu_key \<Rightarrow> card \<Rightarrow> card" where
  "handleClick k s = menuMapping k (s\<lparr>anchorEl := None\<rparr>)"

definition remove_nth :: "nat \<Rightarrow> 'a list \<Rightarrow> 'a list" where
  "remove_nth i xs = take i xs @ drop (Suc i) xs"

text \<open>
  What can happen to a mounted card: a click on the card body (\<open>onClick={handleSelect}\<close>),
  on the update button (\<open>menuMapping.Update()\<close>), on the menu button, on a menu entry, on
  the chains button; the menu or the dialog closing; the parent rendering the card with
  new props, with the option objects created since; and a pending backend call settling.
\<close>

datatype event =
    CardClick
  | UpdateButtonClick
  | MenuButtonClick nat
  | MenuItemClick menu_key
  | MenuClose
  | ChainsButtonClick
  | DialogClose
  | Rerender profile_item bool bool "profile_option list"
  | Settle nat result

fun step :: "event \<Rightarrow> card \<Rightarrow> card" where
  "step CardClick s = handleSelect s"
| "step UpdateButtonClick s = menuMapping Update s"
| "step (MenuButtonClick el) s = s\<lparr>anchorEl := Some el\<rparr>"
| "step (MenuItemClick k) s = handleClick k s"
| "step MenuClose s = s\<lparr>anchorEl := None\<rparr>"
| "step ChainsButtonClick s = call (OnClickChains (item s)) s"
| "step DialogClose s = s\<lparr>dialog_open := False\<rparr>"
| "step (Rerender it sel csel objs) s =
     s\<lparr>item := it, selected := sel, chainsSelected := csel, heap := heap s @ objs\<rparr>"
| "step (Settle i r) s =
     (if i < length (pending s)
      then resume (pending s ! i) r (s\<lparr>pending := remove_nth i (pending s)\<rparr>)
      else s)"

fun run :: "event list \<Rightarrow> card \<Rightarrow> card" where
  "run [] s = s"
| "run (e # es) s = run es (step e s)"

text \<open>The calls an event adds to those already made.\<close>

definition emitted :: "event \<Rightarrow> card \<Rightarrow> effect list" where
  "emitted e s = drop (length (trace s)) (trace (step e s))"


section \<open>The rotating display\<close>

text \<open>
  \<open>TextCarousel\<close> (lines 354 to 391). An entry of \<open>props.nodes\<close> is a node or a falsy value
  (\<open>None\<close>); \<open>nodes\<close> keeps the truthy ones. The component holds the index, the handle
  \<open>timer\<close> of the interval its effect has set, and with it the intervals that are live in
  the window and the handle the next \<open>setInterval\<close> returns.
\<close>

record 'n carousel =
  nodes_prop :: "'n option list"
  index :: number
  timer :: "nat option"
  intervals :: "nat list"
  next_interval :: nat

definition nodes :: "'n carousel \<Rightarrow> 'n list" where
  "nodes c = List.map_filter (\<lambda>x. x) (nodes_prop c)"

text \<open>The effect (lines 365 to 370) and the cleanup it returns.\<close>

definition effect_run :: "'n carousel \<Rightarrow> 'n carousel" where
  "effect_run c =
     c\<lparr>timer := Some (next_interval c),
       intervals := intervals c @ [next_interval c],
       next_interval := Suc (next_interval c)\<rparr>"

definition effect_cleanup :: "'n carousel \<Rightarrow> 'n carousel" where
  "effect_cleanup c =
     (case timer c of
        None \<Rightarrow> c
      | Some t \<Rightarrow> c\<lparr>timer := None, intervals := removeAll t (intervals c)\<rparr>)"

text \<open>Mounting: \<open>useState(0)\<close>, and the effect runs after the first render.\<close>

definition TextCarousel :: "'n option list \<Rightarrow> 'n carousel" where
  "TextCarousel ns =
     effect_run \<lparr>nodes_prop = ns, index = Fin 0, timer = None, intervals = [], next_interval = 0\<rparr>"

text \<open>
  \<open>nextNode\<close> (lines 361 to 363). A state that is set to the value it has leaves the
  component as it is; a new index is a dependency of the effect that has changed, so the
  cleanup of the effect runs and then the effect again.
\<close>

definition nextNode :: "'n carousel \<Rightarrow> 'n carousel" where
  "nextNode c =
     (let i = num_mod (num_add (index c) (Fin 1)) (Fin (real (length (nodes c))))
      in if i = index c then c else effect_run (effect_cleanup (c\<lparr>index := i\<rparr>)))"

text \<open>The children of the container (lines 374 to 387); the container is always there.\<close>

definition render :: "'n carousel \<Rightarrow> 'n list" where
  "render c =
     map fst (filter (\<lambda>(n, i). Fin (real i) = index c)
                (zip (nodes c) [0 ..< length (nodes c)]))"

datatype 'n carousel_event = Tick | Click | SetNodes "'n option list" | Unmount

fun carousel_step :: "'n carousel_event \<Rightarrow> 'n carousel \<Rightarrow> 'n carousel" where
  "carousel_step Tick c = (if intervals c = [] then c else nextNode c)"
| "carousel_step Click c = (if timer c = None then c else nextNode c)"
| "carousel_step (SetNodes ns) c = c\<lparr>nodes_prop := ns\<rparr>"
| "carousel_step Unmount c = effect_cleanup c"

fun carousel_run :: "'n carousel_event list \<Rightarrow> 'n carousel \<Rightarrow> 'n carousel" where
  "carousel_run [] c = c"
| "carousel_run (e # es) c = carousel_run es (carousel_step e c)"

text \<open>The nodes a card gives its display (lines 227 to 237).\<close>

datatype snippet = TimeSpan number string

definition card_nodes :: "profile_item \<Rightarrow> snippet option list" where
  "card_nodes it =
     [case updated it of
        None \<Rightarrow> None
      | Some ts \<Rightarrow> if truthy ts then Some (TimeSpan ts ''Subscription Updated At'') else None,
      case extra it of
        None \<Rightarrow> None
      | Some e \<Rightarrow>
          if truthy (expire e) then Some (TimeSpan (expire e) ''Subscription Expires In'')
          else None]"

section \<open>Notions the properties are stated with\<close>

text \<open>
  The options of the item as the spec words them: the stored options, or the default
  when the item has none.
\<close>

definition stored_or_default :: "profile_option list \<Rightarrow> profile_item \<Rightarrow> profile_option" where
  "stored_or_default h it =
     (case option it of
        Some a \<Rightarrow> h ! a
      | None \<Rightarrow> \<lparr>with_proxy = False, self_proxy = False\<rparr>)"

text \<open>The options \<open>handleUpdate\<close> hands to \<open>updateProfile\<close>.\<close>

definition options_passed :: "profile_option list \<Rightarrow> profile_item \<Rightarrow> bool \<Rightarrow> profile_option" where
  "options_passed h it proxy = (case handleUpdate_options h it proxy of (h', a) \<Rightarrow> h' ! a)"

text \<open>The reference of the item, if it has one, names an object of the store.\<close>

definition valid_item :: "profile_option list \<Rightarrow> profile_item \<Rightarrow> bool" where
  "valid_item h it = (case option it of Some a \<Rightarrow> a < length h | None \<Rightarrow> True)"

text \<open>
  Between two events every lock is held exactly while one call of its handler has not
  settled, and each loading flag stands as the lock of its handler does.
\<close>

definition settled :: "card \<Rightarrow> bool" where
  "settled s =
     (in_flight HandleSelect s = (if lock_select s then 1 else 0) \<and>
      in_flight HandleUpdate s = (if lock_update s then 1 else 0) \<and>
      in_flight HandleDelete s = (if lock_delete s then 1 else 0) \<and>
      loading_card s = lock_select s \<and>
      loading_update s = lock_update s)"

text \<open>The display holds the handle of the one interval that is live.\<close>

definition armed :: "'n carousel \<Rightarrow> bool" where
  "armed c = (case timer c of None \<Rightarrow> False | Some t \<Rightarrow> intervals c = [t])"

text \<open>A remote profile without stored options, update time or usage, for the examples.\<close>

definition example_item :: profile_item where
  "example_item =
     \<lparr>uid = ''p1'', type = ''remote'', name = ''sub'', desc = ''-'',
      url = ''https://example.org/sub'', updated = None, option = None, extra = None\<rparr>"


section \<open>Facts about numbers\<close>

lemma pow2_pos: "0 < (2::real) powi e"
  by (simp add: zero_less_power_int)

lemma pow2_less_iff: "(2::real) powi a < 2 powi b \<longleftrightarrow> a < b"
proof
  assume l: "(2::real) powi a < 2 powi b"
  show "a < b"
  proof (rule ccontr)
    assume "\<not> a < b"
    then have "(2::real) powi b \<le> 2 powi a" by (intro power_int_increasing) simp_all
    with l show False by simp
  qed
next
  assume "a < b"
  then show "(2::real) powi a < 2 powi b" by (intro power_int_strict_increasing) simp_all
qed

lemma pow2_le_iff: "(2::real) powi a \<le> 2 powi b \<longleftrightarrow> a \<le> b"
  using pow2_less_iff [of b a] by (simp add: not_less [symmetric])

lemma pow2_add: "(2::real) powi (a + b) = 2 powi a * 2 powi b"
  by (simp add: power_int_add)

lemma pow2_nat: "0 \<le> d \<Longrightarrow> (2::real) powi d = of_int (2 ^ nat d)"
  by (simp add: power_int_nonneg_exp)

lemma binade_ge: "- 1022 \<le> binade n x"
  by (induction n) simp_all

lemma binade_le: "\<bar>x\<bar> < 2 powi (k + 1) \<Longrightarrow> - 1022 \<le> k \<Longrightarrow> binade n x \<le> k"
proof (induction n)
  case 0
  then show ?case by simp
next
  case (Suc n)
  show ?case
  proof (cases "2 powi (int (Suc n) - 1022) \<le> \<bar>x\<bar>")
    case True
    with Suc.prems(1) have "(2::real) powi (int (Suc n) - 1022) < 2 powi (k + 1)" by linarith
    then have "int (Suc n) - 1022 < k + 1" by (simp only: pow2_less_iff)
    with True show ?thesis by simp
  next
    case False
    with Suc show ?thesis by simp
  qed
qed

lemma binade_eq:
  "2 powi e \<le> \<bar>x\<bar> \<Longrightarrow> \<bar>x\<bar> < 2 powi (e + 1) \<Longrightarrow> - 1022 \<le> e \<Longrightarrow> e \<le> int n - 1022 \<Longrightarrow>
   binade n x = e"
proof (induction n)
  case 0
  then show ?case by simp
next
  case (Suc n)
  show ?case
  proof (cases "2 powi (int (Suc n) - 1022) \<le> \<bar>x\<bar>")
    case True
    with Suc.prems(2) have "(2::real) powi (int (Suc n) - 1022) < 2 powi (e + 1)" by linarith
    then have "int (Suc n) - 1022 < e + 1" by (simp only: pow2_less_iff)
    with Suc.prems(4) True show ?thesis by simp
  next
    case False
    with Suc.prems(1) have "e \<noteq> int (Suc n) - 1022" by auto
    with Suc.prems(4) have "e \<le> int n - 1022" by simp
    with Suc False show ?thesis by simp
  qed
qed

lemma expo_le: "\<bar>x\<bar> < 2 powi (k + 1) \<Longrightarrow> - 1022 \<le> k \<Longrightarrow> expo x \<le> k"
  unfolding expo_def by (rule binade_le)

lemma expo_eq:
  "2 powi e \<le> \<bar>x\<bar> \<Longrightarrow> \<bar>x\<bar> < 2 powi (e + 1) \<Longrightarrow> - 1022 \<le> e \<Longrightarrow> e \<le> 1023 \<Longrightarrow> expo x = e"
  unfolding expo_def by (rule binade_eq) simp_all

lemma expo_top: "2 powi 1023 \<le> \<bar>x\<bar> \<Longrightarrow> expo x = 1023"
  by (simp add: expo_def eval_nat_numeral)

lemma ulp_pos: "0 < ulp x"
  by (simp add: ulp_def pow2_pos)

lemma round_even_of_int: "round_even (of_int n) = n"
  by (simp add: round_even_def)

lemma round_even_lower: "\<lfloor>y\<rfloor> \<le> round_even y"
  by (simp add: round_even_def Let_def)

lemma round_even_upper: "round_even y \<le> \<lceil>y\<rceil>"
proof (cases "y = of_int \<lfloor>y\<rfloor>")
  case True
  then have "round_even y = \<lfloor>y\<rfloor>" by (metis round_even_of_int)
  then show ?thesis by (simp add: floor_le_ceiling)
next
  case False
  then have "\<lceil>y\<rceil> = \<lfloor>y\<rfloor> + 1" by (simp add: ceiling_altdef)
  then show ?thesis by (simp add: round_even_def Let_def)
qed

lemma round_even_abs: "\<bar>y\<bar> \<le> of_int M \<Longrightarrow> \<bar>round_even y\<bar> \<le> M"
proof -
  assume a: "\<bar>y\<bar> \<le> of_int M"
  then have "y \<le> of_int M" and "of_int (- M) \<le> y" by simp_all
  then have "\<lceil>y\<rceil> \<le> M" and "- M \<le> \<lfloor>y\<rfloor>"
    by (simp_all add: ceiling_le_iff le_floor_iff)
  with round_even_lower [of y] round_even_upper [of y] show ?thesis by linarith
qed

text \<open>Rounding does not pass a power of two, and leaves a binary64 value as it is.\<close>

lemma round64_bound:
  fixes k :: nat
  assumes "\<bar>x\<bar> \<le> 2 ^ k"
  shows "\<bar>round64 x\<bar> \<le> 2 ^ k"
proof -
  have "(2::real) ^ k < 2 powi (int k + 1)"
    using pow2_less_iff [of "int k" "int k + 1"] by simp
  with assms have "\<bar>x\<bar> < 2 powi (int k + 1)" by linarith
  then have e: "expo x \<le> int k" by (rule expo_le) simp
  define d where "d = int k - (expo x - 52)"
  have d0: "0 \<le> d" using e by (simp add: d_def)
  have split: "(2::real) ^ k = ulp x * of_int (2 ^ nat d)"
  proof -
    have "(2::real) ^ k = 2 powi (expo x - 52 + d)" by (simp add: d_def)
    also have "\<dots> = ulp x * 2 powi d" by (simp only: pow2_add ulp_def)
    finally show ?thesis by (simp only: pow2_nat [OF d0])
  qed
  have "\<bar>x / ulp x\<bar> = \<bar>x\<bar> / ulp x" using ulp_pos [of x] by simp
  also have "\<dots> \<le> 2 ^ k / ulp x" using assms ulp_pos [of x] by (simp add: divide_right_mono)
  also have "\<dots> = of_int (2 ^ nat d)" using ulp_pos [of x] by (simp add: split)
  finally have "\<bar>round_even (x / ulp x)\<bar> \<le> 2 ^ nat d" by (rule round_even_abs)
  then have "\<bar>real_of_int (round_even (x / ulp x))\<bar> \<le> of_int (2 ^ nat d)"
    by (metis of_int_abs of_int_le_iff)
  then have "ulp x * \<bar>real_of_int (round_even (x / ulp x))\<bar> \<le> ulp x * of_int (2 ^ nat d)"
    using ulp_pos [of x] by (simp only: mult_le_cancel_left_pos)
  then show ?thesis using ulp_pos [of x] by (simp add: round64_def abs_mult split)
qed

lemma round64_exact:
  assumes "\<bar>m\<bar> < 2 ^ 53" and "- 1074 \<le> j"
  shows "round64 (of_int m * 2 powi j) = of_int m * 2 powi j"
proof -
  define x :: real where "x = of_int m * 2 powi j"
  define k where "k = max (52 + j) (- 1022)"
  have "\<bar>real_of_int m\<bar> < 2 ^ 53" using assms(1) by (metis of_int_abs of_int_less_iff of_int_numeral of_int_power)
  then have "\<bar>x\<bar> < 2 ^ 53 * 2 powi j"
    using pow2_pos [of j] by (simp add: x_def abs_mult)
  also have "\<dots> = 2 powi (53 + j)" by (simp add: pow2_add)
  also have "\<dots> \<le> 2 powi (k + 1)" by (simp only: pow2_le_iff) (simp add: k_def)
  finally have "expo x \<le> k" by (rule expo_le) (simp add: k_def)
  then have e: "expo x - 52 \<le> j" using assms(2) by (simp add: k_def)
  define d where "d = j - (expo x - 52)"
  define u where "u = ulp x"
  have u0: "0 < u" unfolding u_def by (rule ulp_pos)
  have d0: "0 \<le> d" using e by (simp add: d_def)
  have "(2::real) powi j = 2 powi (expo x - 52 + d)" by (simp add: d_def)
  also have "\<dots> = u * 2 powi d" by (simp only: pow2_add ulp_def u_def)
  finally have j: "(2::real) powi j = u * of_int (2 ^ nat d)" by (simp only: pow2_nat [OF d0])
  have xs: "x = u * of_int (m * 2 ^ nat d)" unfolding x_def j by simp
  then have "x / u = of_int (m * 2 ^ nat d)" using u0 by simp
  then have "round_even (x / u) = m * 2 ^ nat d" by (simp only: round_even_of_int)
  then have "round64 x = u * of_int (m * 2 ^ nat d)" by (simp only: round64_def u_def)
  with xs have "round64 x = x" by simp
  then show ?thesis by (simp only: x_def)
qed

lemma round64_of_int: "\<bar>n\<bar> < 2 ^ 53 \<Longrightarrow> round64 (of_int n) = of_int n"
  using round64_exact [of n 0] by simp

lemma round64_half: "round64 (1 / 2) = 1 / 2"
  using round64_exact [of 1 "- 1"] by simp

lemma round64_in_binade:
  "2 powi e \<le> \<bar>x\<bar> \<Longrightarrow> \<bar>x\<bar> < 2 powi (e + 1) \<Longrightarrow> - 1022 \<le> e \<Longrightarrow> e \<le> 1023 \<Longrightarrow>
   round64 x = 2 powi (e - 52) * of_int (round_even (x / 2 powi (e - 52)))"
  by (simp add: round64_def ulp_def expo_eq)

lemma fin_bounded:
  fixes k :: nat
  assumes "\<bar>x\<bar> \<le> 2 ^ k" and "k < 1024"
  shows "fin x = Fin (round64 x)"
proof -
  have "(2::real) ^ k < 2 ^ 1024" using assms(2) by (intro power_strict_increasing) simp_all
  with round64_bound [OF assms(1)] have "\<bar>round64 x\<bar> < 2 ^ 1024" by linarith
  then show ?thesis by (simp add: fin_def Let_def)
qed

lemma fin_of_int: "\<bar>n\<bar> < 2 ^ 53 \<Longrightarrow> fin (of_int n) = Fin (of_int n)"
proof -
  assume a: "\<bar>n\<bar> < 2 ^ 53"
  then have "\<bar>real_of_int n\<bar> \<le> 2 ^ 53" by (metis less_imp_le of_int_abs of_int_le_iff of_int_numeral of_int_power)
  then have "fin (of_int n) = Fin (round64 (of_int n))" by (rule fin_bounded) simp
  moreover have "round64 (of_int n) = of_int n"
    using round64_exact [OF a, of 0] by simp
  ultimately show ?thesis by simp
qed

lemma fin_numeral [simp]:
  "fin 0 = Fin 0" "fin 1 = Fin 1" "fin 2 = Fin 2"
  using fin_of_int [of 0] fin_of_int [of 1] fin_of_int [of 2] by simp_all

text \<open>
  Rounding at work: a third is rounded down, its hundredfold again; the odd sum
  \<open>2^53 + 1\<close> lies between two values and goes to the even one.
\<close>

lemma round64_third: "round64 (1 / 3) = 6004799503160661 / 2 ^ 54"
proof -
  have "round64 (1 / 3) = 2 powi (- 2 - 52) * of_int (round_even ((1 / 3) / 2 powi (- 2 - 52)))"
    by (rule round64_in_binade) simp_all
  also have "round_even ((1 / 3) / 2 powi (- 2 - 52)) = 6004799503160661"
    by (simp add: round_even_def Let_def)
  finally show ?thesis by simp
qed

lemma round64_third_times_100:
  "round64 (6004799503160661 / 2 ^ 54 * 100) = 2345624805922133 / 2 ^ 46"
proof -
  have "round64 (6004799503160661 / 2 ^ 54 * 100) =
      2 powi (5 - 52) * of_int (round_even ((6004799503160661 / 2 ^ 54 * 100) / 2 powi (5 - 52)))"
    by (rule round64_in_binade) simp_all
  also have "round_even ((6004799503160661 / 2 ^ 54 * 100) / 2 powi (5 - 52)) = 4691249611844266"
    by (simp add: round_even_def Let_def)
  finally show ?thesis by simp
qed

lemma round64_tie: "round64 (2 ^ 53 + 1) = 2 ^ 53"
proof -
  have "round64 (2 ^ 53 + 1) = 2 powi (53 - 52) * of_int (round_even ((2 ^ 53 + 1) / 2 powi (53 - 52)))"
    by (rule round64_in_binade) simp_all
  also have "round_even ((2 ^ 53 + 1) / 2 powi (53 - 52)) = 2 ^ 52"
    by (simp add: round_even_def Let_def)
  finally show ?thesis by simp
qed

text \<open>
  \<open>calc\<close> on usage \<open>{download: 1, upload: 0, total: 3}\<close>, on
  \<open>{download: 2^53, upload: 1, total: 2^53}\<close>, and on a usage whose quotient is finite
  and whose percentage is not.
\<close>

lemma calc_rounds_quotient:
  "calc (example_item\<lparr>extra :=
           Some \<lparr>download = Fin 1, upload = Fin 0, total = Fin 3, expire = Fin 0\<rparr>\<rparr>)
     = \<lparr>progress = Fin (2345624805922133 / 2 ^ 46), total = Fin 3, used = Fin 1\<rparr>"
proof -
  have a: "fin (1 / 3) = Fin (6004799503160661 / 2 ^ 54)"
    using fin_bounded [of "1 / 3" 0] by (simp add: round64_third)
  have b: "fin (6004799503160661 / 2 ^ 54 * 100) = Fin (2345624805922133 / 2 ^ 46)"
    using fin_bounded [of "6004799503160661 / 2 ^ 54 * 100" 6]
    by (simp only: round64_third_times_100) simp
  show ?thesis using a b by (simp add: calc_def Let_def)
qed

lemma calc_rounds_sum:
  "calc (example_item\<lparr>extra :=
           Some \<lparr>download = Fin (2 ^ 53), upload = Fin 1, total = Fin (2 ^ 53), expire = Fin 0\<rparr>\<rparr>)
     = \<lparr>progress = Fin 100, total = Fin (2 ^ 53), used = Fin (2 ^ 53)\<rparr>"
proof -
  have a: "fin (2 ^ 53 + 1) = Fin (2 ^ 53)"
    using fin_bounded [of "2 ^ 53 + 1" 54] by (simp only: round64_tie) simp
  have b: "fin 100 = Fin 100" using fin_of_int [of 100] by simp
  show ?thesis using a b by (simp add: calc_def Let_def del: power_numeral) 
qed

lemma calc_overflows:
  "calc (example_item\<lparr>extra :=
           Some \<lparr>download = Fin (7875510468268701 * 2 ^ 965), upload = Fin 0,
                 total = Fin (6152742553334923 / 2 ^ 52), expire = Fin 0\<rparr>\<rparr>)
     = \<lparr>progress = PosInf, total = Fin (6152742553334923 / 2 ^ 52),
        used = Fin (7875510468268701 * 2 ^ 965)\<rparr>"
proof -
  define d :: real where "d = 7875510468268701 * 2 ^ 965"
  define t :: real where "t = 6152742553334923 / 2 ^ 52"
  define q :: real where "q = 5764607523034235 * 2 ^ 965"
  have "round64 d = d"
    using round64_exact [of 7875510468268701 965] by (simp add: d_def)
  moreover have "fin d = Fin (round64 d)"
    by (rule fin_bounded [of d 1018]) (simp_all add: d_def)
  ultimately have a: "fin d = Fin d" by simp
  have "round64 (d / t) = 2 powi (1017 - 52) * of_int (round_even ((d / t) / 2 powi (1017 - 52)))"
    by (rule round64_in_binade) (simp_all add: d_def t_def)
  also have "round_even ((d / t) / 2 powi (1017 - 52)) = 5764607523034235"
    by (simp add: round_even_def Let_def d_def t_def)
  finally have "round64 (d / t) = q" by (simp add: q_def)
  moreover have "fin (d / t) = Fin (round64 (d / t))"
    by (rule fin_bounded [of "d / t" 1018]) (simp_all add: d_def t_def)
  ultimately have b: "fin (d / t) = Fin q" by simp
  have "expo (q * 100) = 1023" by (rule expo_top) (simp add: q_def)
  then have "round64 (q * 100) = 2 powi (1023 - 52) * of_int (round_even ((q * 100) / 2 powi (1023 - 52)))"
    by (simp add: round64_def ulp_def)
  also have "round_even ((q * 100) / 2 powi (1023 - 52)) = 2 ^ 53"
    by (simp add: round_even_def Let_def q_def)
  finally have "round64 (q * 100) = 2 ^ 1024" by simp
  then have c: "fin (q * 100) = PosInf" by (simp add: fin_def Let_def)
  have "calc (example_item\<lparr>extra :=
           Some \<lparr>download = Fin d, upload = Fin 0, total = Fin t, expire = Fin 0\<rparr>\<rparr>)
     = \<lparr>progress = PosInf, total = Fin t, used = Fin d\<rparr>"
    using a b c by (simp add: calc_def Let_def) (simp add: t_def)
  then show ?thesis by (simp only: d_def t_def)
qed

text \<open>With a total of zero the percentage is never finite; without usage the label is NaN.\<close>

lemma zero_divisor_not_finite: "\<not> finite_number (num_mul (num_div x (Fin 0)) (Fin 100))"
  by (cases x) simp_all

lemma calc_zero_total:
  "extra it = Some e \<Longrightarrow> profile_extra.total e = Fin 0 \<Longrightarrow>
   \<not> finite_number (traffic.progress (calc it))"
  by (simp add: calc_def Let_def zero_divisor_not_finite)

lemma percent_label_no_extra: "extra it = None \<Longrightarrow> percent_label it = NaN"
  by (simp add: percent_label_def calc_def)


section \<open>Locks, loading flags and calls in flight\<close>

lemmas handler_defs =
  handleSelect_def handleSelect_fn_def handleUpdate_def handleUpdate_fn_def
  handleDelete_def handleDelete_fn_def useLockFn_def release_def
  handleSelect_catch_def handleSelect_finally_def handleUpdate_finally_def
  handleDelete_catch_def call_def await_def handleClick_def

lemma length_filter_remove_nth:
  "i < length xs \<Longrightarrow>
   length (filter P (remove_nth i xs)) = length (filter P xs) - (if P (xs ! i) then 1 else 0)"
proof (induction xs arbitrary: i)
  case Nil
  then show ?case by simp
next
  case (Cons x xs)
  show ?case
  proof (cases i)
    case 0
    then show ?thesis by (simp add: remove_nth_def)
  next
    case (Suc j)
    with Cons.prems have j: "j < length xs" by simp
    have pos: "P (xs ! j) \<Longrightarrow> 0 < length (filter P xs)"
      using j by (metis filter_empty_conv length_greater_0_conv nth_mem)
    from Cons.IH [OF j] Suc pos show ?thesis
      by (auto simp add: remove_nth_def)
  qed
qed

lemma settled_init: "settled (init_card it sel csel h)"
  by (simp add: settled_def init_card_def in_flight_def)

lemma settled_handleSelect: "settled s \<Longrightarrow> settled (handleSelect s)"
  by (auto simp add: settled_def in_flight_def handler_defs split: if_splits)

lemma settled_handleUpdate: "settled s \<Longrightarrow> settled (handleUpdate p s)"
  by (auto simp add: settled_def in_flight_def handler_defs split: if_splits prod.splits)

lemma settled_handleDelete: "settled s \<Longrightarrow> settled (handleDelete s)"
  by (auto simp add: settled_def in_flight_def handler_defs split: if_splits)

lemma settled_anchor: "settled (s\<lparr>anchorEl := a\<rparr>) = settled s"
  by (simp add: settled_def in_flight_def)

lemma settled_menuMapping: "settled s \<Longrightarrow> settled (menuMapping k s)"
  by (cases k) (simp_all add: settled_handleSelect settled_handleUpdate settled_handleDelete,
      simp_all add: settled_def in_flight_def call_def)

lemma settled_resume:
  assumes "settled s" and "i < length (pending s)"
  shows "settled (resume (pending s ! i) r (s\<lparr>pending := remove_nth i (pending s)\<rparr>))"
proof -
  have len: "\<And>l. length (filter (\<lambda>k. owner k = l) (remove_nth i (pending s))) =
      length (filter (\<lambda>k. owner k = l) (pending s)) - (if owner (pending s ! i) = l then 1 else 0)"
    using assms(2) by (rule length_filter_remove_nth)
  have pos: "0 < in_flight (owner (pending s ! i)) s"
    using assms(2) unfolding in_flight_def
    by (metis (mono_tags, lifting) filter_empty_conv length_greater_0_conv nth_mem)
  show ?thesis
    using assms(1) pos
    by (cases "pending s ! i"; cases r)
       (auto simp add: settled_def in_flight_def len handler_defs split: if_splits)
qed

lemma settled_step: "settled s \<Longrightarrow> settled (step e s)"
proof (cases e)
  case (Settle i r)
  assume "settled s"
  then show ?thesis using Settle by (simp add: settled_resume)
next
  case (MenuItemClick k)
  assume "settled s"
  then show ?thesis using MenuItemClick
    by (simp add: handleClick_def settled_menuMapping settled_anchor)
qed (simp_all add: settled_handleSelect settled_handleUpdate, simp_all add: settled_def in_flight_def call_def)

lemma settled_run: "settled s \<Longrightarrow> settled (run es s)"
  by (induction es arbitrary: s) (simp_all add: settled_step)

lemma settled_reachable: "settled (run es (init_card it sel csel h))"
  by (rule settled_run) (rule settled_init)

lemma settled_locks:
  "settled s \<Longrightarrow> lock_select s = (0 < in_flight HandleSelect s)"
  "settled s \<Longrightarrow> lock_update s = (0 < in_flight HandleUpdate s)"
  "settled s \<Longrightarrow> lock_delete s = (0 < in_flight HandleDelete s)"
  by (simp_all add: settled_def)

text \<open>A handler whose lock is held does nothing; one whose lock is free makes its call.\<close>

lemma locked_noop:
  "lock_select s \<Longrightarrow> handleSelect s = s"
  "lock_update s \<Longrightarrow> handleUpdate p s = s"
  "lock_delete s \<Longrightarrow> handleDelete s = s"
  by (simp_all add: handler_defs)

lemma handleSelect_free:
  "\<not> lock_select s \<Longrightarrow> \<not> selected s \<Longrightarrow>
   handleSelect s =
     s\<lparr>lock_select := True, loading_card := True,
       trace := trace s @ [SetProfilesConfig (uid (item s))],
       pending := pending s @ [AfterSetProfilesConfig]\<rparr>"
  by (simp add: handler_defs)

lemma handleUpdate_free:
  "\<not> lock_update s \<Longrightarrow>
   handleUpdate p s =
     s\<lparr>lock_update := True, heap := fst (handleUpdate_options (heap s) (item s) p),
       loading_update := True,
       trace := trace s @ [UpdateProfile (uid (item s)) (options_passed (heap s) (item s) p)],
       pending := pending s @ [AfterUpdateProfile]\<rparr>"
  by (simp add: handler_defs options_passed_def split: prod.splits)

lemma handleDelete_free:
  "\<not> lock_delete s \<Longrightarrow>
   handleDelete s =
     s\<lparr>lock_delete := True,
       trace := trace s @ [DeleteProfile (uid (item s))],
       pending := pending s @ [AfterDeleteProfile]\<rparr>"
  by (simp add: handler_defs)


section \<open>The calls an event makes\<close>

lemma trace_step: "trace (step e s) = trace s @ emitted e s"
proof -
  have menu: "\<And>k s. \<exists>ys. trace (menuMapping k s) = trace s @ ys"
    subgoal for k s
      by (cases k) (auto simp add: handler_defs split: prod.splits)
    done
  have "\<exists>ys. trace (step e s) = trace s @ ys"
  proof (cases e)
    case (MenuItemClick k)
    then show ?thesis using menu [of k "s\<lparr>anchorEl := None\<rparr>"] by (simp add: handleClick_def)
  next
    case UpdateButtonClick
    then show ?thesis using menu [of Update s] by simp
  next
    case (Settle i r)
    then show ?thesis
      by (cases "pending s ! i"; cases r) (auto simp add: handler_defs)
  qed (auto simp add: handler_defs)
  then show ?thesis by (auto simp add: emitted_def)
qed

lemma emitted_settle:
  "i < length (pending s) \<Longrightarrow>
   emitted (Settle i r) s =
     (case (pending s ! i, r) of
        (AfterSetProfilesConfig, Resolved) \<Rightarrow> [DeleteConnections]
      | (AfterSetProfilesConfig, Rejected err) \<Rightarrow>
          [Message (if is_fetch_error err then FetchErrorNotice
                    else ErrorSettingProfile (error_text err))]
      | (AfterDeleteConnections, Resolved) \<Rightarrow> []
      | (AfterDeleteConnections, Rejected err) \<Rightarrow>
          [Message (if is_fetch_error err then FetchErrorNotice
                    else ErrorSettingProfile (error_text err))]
      | (AfterUpdateProfile, r') \<Rightarrow> []
      | (AfterDeleteProfile, Resolved) \<Rightarrow> []
      | (AfterDeleteProfile, Rejected err) \<Rightarrow> [Message (DeleteFailed err)])"
  by (cases "pending s ! i"; cases r) (simp_all add: emitted_def handler_defs)

lemma emitted_settle_out: "\<not> i < length (pending s) \<Longrightarrow> emitted (Settle i r) s = []"
  by (simp add: emitted_def)

lemma emitted_handleSelect:
  "drop (length (trace s)) (trace (handleSelect s)) =
     (if lock_select s \<or> selected s then [] else [SetProfilesConfig (uid (item s))])"
  by (simp add: handler_defs)

lemma emitted_handleUpdate:
  "drop (length (trace s)) (trace (handleUpdate p s)) =
     (if lock_update s then []
      else [UpdateProfile (uid (item s)) (options_passed (heap s) (item s) p)])"
  by (simp add: handler_defs options_passed_def split: prod.splits)

lemma emitted_handleDelete:
  "drop (length (trace s)) (trace (handleDelete s)) =
     (if lock_delete s then [] else [DeleteProfile (uid (item s))])"
  by (simp add: handler_defs)

lemma emitted_menuMapping:
  "drop (length (trace s)) (trace (menuMapping k s)) =
     (case k of
        Select \<Rightarrow> if lock_select s \<or> selected s then [] else [SetProfilesConfig (uid (item s))]
      | EditInfo \<Rightarrow> []
      | ProxyChains \<Rightarrow> [OnClickChains (item s)]
      | OpenFile \<Rightarrow> [ViewProfile (uid (item s))]
      | Update \<Rightarrow> if lock_update s then []
                  else [UpdateProfile (uid (item s)) (options_passed (heap s) (item s) False)]
      | UpdateProxy \<Rightarrow> if lock_update s then []
                  else [UpdateProfile (uid (item s)) (options_passed (heap s) (item s) True)]
      | Delete \<Rightarrow> if lock_delete s then [] else [DeleteProfile (uid (item s))])"
  by (cases k)
     (simp_all add: emitted_handleSelect emitted_handleUpdate emitted_handleDelete call_def)

lemma emitted_menu_item:
  "emitted (MenuItemClick k) s = drop (length (trace s)) (trace (menuMapping k s))"
proof -
  have "emitted (MenuItemClick k) s =
      drop (length (trace (s\<lparr>anchorEl := None\<rparr>))) (trace (menuMapping k (s\<lparr>anchorEl := None\<rparr>)))"
    by (simp add: emitted_def handleClick_def)
  also have "\<dots> = drop (length (trace s)) (trace (menuMapping k s))"
    unfolding emitted_menuMapping by (simp split: menu_key.splits)
  finally show ?thesis .
qed


section \<open>What an update leaves alone\<close>

lemma handleUpdate_item_frame: "item (handleUpdate p s) = item s"
  by (simp add: handler_defs split: prod.splits)

lemma handleUpdate_heap_frame:
  "\<not> p \<or> option (item s) = None \<Longrightarrow> take (length (heap s)) (heap (handleUpdate p s)) = heap s"
  by (auto simp add: handler_defs handleUpdate_options_def alloc_def
      store_with_proxy_def store_self_proxy_def split: prod.splits option.splits)


section \<open>The timer of the display\<close>

lemma armed_effect: "armed c \<Longrightarrow> armed (effect_run (effect_cleanup c))"
  by (auto simp add: armed_def effect_run_def effect_cleanup_def split: option.splits)

lemma armed_mount: "armed (TextCarousel ns)"
  by (simp add: armed_def TextCarousel_def effect_run_def)

lemma armed_index: "armed (c\<lparr>index := i\<rparr>) = armed c"
  by (simp add: armed_def split: option.splits)

lemma armed_nextNode: "armed c \<Longrightarrow> armed (nextNode c)"
  by (simp add: nextNode_def Let_def armed_effect armed_index)

lemma armed_step: "e \<noteq> Unmount \<Longrightarrow> armed c \<Longrightarrow> armed (carousel_step e c)"
  by (cases e) (simp_all add: armed_nextNode, simp add: armed_def split: option.splits)

lemma armed_run: "Unmount \<notin> set es \<Longrightarrow> armed c \<Longrightarrow> armed (carousel_run es c)"
proof (induction es arbitrary: c)
  case Nil
  then show ?case by simp
next
  case (Cons e es)
  from Cons.prems have "e \<noteq> Unmount" and rest: "Unmount \<notin> set es" by auto
  with Cons.prems have "armed (carousel_step e c)" by (simp add: armed_step)
  with Cons.IH rest show ?case by simp
qed

lemma render_no_nodes: "nodes c = [] \<Longrightarrow> render c = []"
  by (simp add: render_def)

text \<open>Unmounting clears the interval the display holds.\<close>

lemma unmount_disarms: "armed c \<Longrightarrow> intervals (carousel_step Unmount c) = []"
  by (simp add: armed_def effect_cleanup_def split: option.splits)

text \<open>Two snippets: a tick shows the second, the next tick wraps to the first.\<close>

lemma rotation_wraps:
  "index (carousel_run [Tick] (TextCarousel [Some a, Some b])) = Fin 1 \<and>
   render (carousel_run [Tick] (TextCarousel [Some a, Some b])) = [b] \<and>
   index (carousel_run [Tick, Tick] (TextCarousel [Some a, Some b])) = Fin 0 \<and>
   render (carousel_run [Tick, Tick] (TextCarousel [Some a, Some b])) = [a]"
  by (simp add: nodes_def List.map_filter_def TextCarousel_def effect_run_def
      effect_cleanup_def nextNode_def render_def trunc_def upt_rec)


section \<open>Example runs\<close>

lemma example_idle:
  "in_flight HandleSelect (init_card example_item False False []) = 0"
  "\<not> selected (init_card example_item False False [])"
  "in_flight HandleUpdate (init_card example_item False False []) = 0"
  "in_flight HandleDelete (init_card example_item False False []) = 0"
  by (simp_all add: init_card_def in_flight_def)

lemma example_select:
  "run [CardClick] (init_card example_item False False []) =
     (init_card example_item False False [])
       \<lparr>lock_select := True, loading_card := True,
        trace := [SetProfilesConfig ''p1''], pending := [AfterSetProfilesConfig]\<rparr>"
  by (simp add: init_card_def handler_defs example_item_def)

lemma example_update:
  "run [UpdateButtonClick] (init_card example_item False False []) =
     (init_card example_item False False [])
       \<lparr>lock_update := True, loading_update := True,
        heap := [\<lparr>with_proxy = False, self_proxy = False\<rparr>],
        trace := [UpdateProfile ''p1'' \<lparr>with_proxy = False, self_proxy = False\<rparr>],
        pending := [AfterUpdateProfile]\<rparr>"
  by (simp add: init_card_def handler_defs example_item_def handleUpdate_options_def alloc_def)

lemma example_delete:
  "run [MenuItemClick Delete] (init_card example_item False False []) =
     (init_card example_item False False [])
       \<lparr>lock_delete := True,
        trace := [DeleteProfile ''p1''], pending := [AfterDeleteProfile]\<rparr>"
  by (simp add: init_card_def handler_defs example_item_def)

lemma example_busy:
  "run [CardClick, UpdateButtonClick, MenuItemClick Delete] (init_card example_item False False []) =
     (init_card example_item False False [])
       \<lparr>lock_select := True, loading_card := True,
        lock_update := True, loading_update := True, lock_delete := True,
        heap := [\<lparr>with_proxy = False, self_proxy = False\<rparr>],
        trace := [SetProfilesConfig ''p1'',
                  UpdateProfile ''p1'' \<lparr>with_proxy = False, self_proxy = False\<rparr>,
                  DeleteProfile ''p1''],
        pending := [AfterSetProfilesConfig, AfterUpdateProfile, AfterDeleteProfile]\<rparr>"
  by (simp add: init_card_def handler_defs example_item_def handleUpdate_options_def alloc_def)

lemma example_clearing:
  "run [CardClick, Settle 0 Resolved] (init_card example_item False False []) =
     (init_card example_item False False [])
       \<lparr>lock_select := True, loading_card := True,
        trace := [SetProfilesConfig ''p1'', DeleteConnections],
        pending := [AfterDeleteConnections]\<rparr>"
  by (simp add: init_card_def handler_defs example_item_def remove_nth_def)


section \<open>The properties\<close>

text \<open>
  C1, as the code has it. Without usage \<open>calc\<close> returns zero for \<open>progress\<close>, \<open>total\<close> and
  \<open>used\<close>. With usage whose download and upload are at most \<open>2^64\<close> in magnitude and
  whose total is at least \<open>1\<close> in magnitude (byte counts with a total that is not zero
  are such), \<open>used\<close> is the rounded sum and \<open>progress\<close> is the rounded hundredfold of
  the rounded quotient: a finite value, neither NaN nor infinite. The division has no
  guard: a total of zero is outside this statement.
\<close>

theorem calc_progress:
  "(extra it = None \<longrightarrow> calc it = \<lparr>progress = Fin 0, total = Fin 0, used = Fin 0\<rparr>) \<and>
   (extra it = Some e \<and> download e = Fin d \<and> upload e = Fin u \<and>
    profile_extra.total e = Fin t \<and> \<bar>d\<bar> \<le> 2 ^ 64 \<and> \<bar>u\<bar> \<le> 2 ^ 64 \<and> 1 \<le> \<bar>t\<bar> \<longrightarrow>
      calc it =
        \<lparr>progress = Fin (round64 (round64 (round64 (d + u) / t) * 100)),
         total = Fin t, used = Fin (round64 (d + u))\<rparr> \<and>
      finite_number (traffic.progress (calc it)))"
proof (intro conjI impI)
  assume "extra it = None"
  then show "calc it = \<lparr>progress = Fin 0, total = Fin 0, used = Fin 0\<rparr>"
    by (simp add: calc_def)
next
  assume a: "extra it = Some e \<and> download e = Fin d \<and> upload e = Fin u \<and>
    profile_extra.total e = Fin t \<and> \<bar>d\<bar> \<le> 2 ^ 64 \<and> \<bar>u\<bar> \<le> 2 ^ 64 \<and> 1 \<le> \<bar>t\<bar>"
  define s where "s = round64 (d + u)"
  define q where "q = round64 (s / t)"
  have t0: "t \<noteq> 0" using a by auto
  have "\<bar>d + u\<bar> \<le> 2 ^ 64 + 2 ^ 64" using a by linarith
  then have du: "\<bar>d + u\<bar> \<le> 2 ^ 65" by simp
  then have fs: "fin (d + u) = Fin s" unfolding s_def by (rule fin_bounded) simp
  have sb: "\<bar>s\<bar> \<le> 2 ^ 65" unfolding s_def using du by (rule round64_bound)
  have "\<bar>s\<bar> * 1 \<le> \<bar>s\<bar> * \<bar>t\<bar>" using a by (intro mult_left_mono) simp_all
  then have "\<bar>s / t\<bar> \<le> \<bar>s\<bar>" using t0 by (simp add: divide_le_eq)
  with sb have st: "\<bar>s / t\<bar> \<le> 2 ^ 65" by linarith
  then have fq: "fin (s / t) = Fin q" unfolding q_def by (rule fin_bounded) simp
  have qb: "\<bar>q\<bar> \<le> 2 ^ 65" unfolding q_def using st by (rule round64_bound)
  have "\<bar>q * 100\<bar> = \<bar>q\<bar> * 100" by (simp add: abs_mult)
  also have "\<dots> \<le> 2 ^ 65 * 2 ^ 7" using qb by simp
  also have "\<dots> = 2 ^ 72" by simp
  finally have fp: "fin (q * 100) = Fin (round64 (q * 100))" by (rule fin_bounded) simp
  have c: "calc it = \<lparr>progress = Fin (round64 (q * 100)), total = Fin t, used = Fin s\<rparr>"
    using a t0 by (simp add: calc_def Let_def fs fq fp)
  then show "calc it =
        \<lparr>progress = Fin (round64 (round64 (round64 (d + u) / t) * 100)),
         total = Fin t, used = Fin (round64 (d + u))\<rparr>"
    by (simp only: q_def s_def)
  from c show "finite_number (traffic.progress (calc it))" by simp
qed

theorem calc_progress_witness:
  "calc example_item = \<lparr>progress = Fin 0, total = Fin 0, used = Fin 0\<rparr> \<and>
   calc (example_item\<lparr>extra :=
           Some \<lparr>download = Fin 30, upload = Fin 20, total = Fin 100, expire = Fin 0\<rparr>\<rparr>)
     = \<lparr>progress = Fin 50, total = Fin 100, used = Fin 50\<rparr> \<and>
   finite_number (traffic.progress (calc (example_item\<lparr>extra :=
           Some \<lparr>download = Fin 30, upload = Fin 20, total = Fin 100, expire = Fin 0\<rparr>\<rparr>)))"
proof -
  let ?e = "\<lparr>download = Fin 30, upload = Fin 20, total = Fin 100, expire = Fin 0\<rparr>"
  have n: "extra example_item = None" by (simp add: example_item_def)
  from calc_progress [of example_item] n
  have 1: "calc example_item = \<lparr>progress = Fin 0, total = Fin 0, used = Fin 0\<rparr>" by blast
  have r: "round64 50 = 50" using round64_of_int [of 50] by simp
  have h: "\<bar>30::real\<bar> \<le> 2 ^ 64 \<and> \<bar>20::real\<bar> \<le> 2 ^ 64 \<and> 1 \<le> \<bar>100::real\<bar>" by simp
  from calc_progress [of "example_item\<lparr>extra := Some ?e\<rparr>" ?e 30 20 100] h
  have 2: "calc (example_item\<lparr>extra := Some ?e\<rparr>)
      = \<lparr>progress = Fin 50, total = Fin 100, used = Fin 50\<rparr>"
    and 3: "finite_number (traffic.progress (calc (example_item\<lparr>extra := Some ?e\<rparr>)))"
    by (simp_all add: r round64_half)
  from 1 2 3 show ?thesis by blast
qed

text \<open>
  C1 as stated fails: with usage present and \<open>total = 0\<close> (nothing downloaded or
  uploaded), \<open>progress\<close> is \<open>0 / 0 * 100\<close>, which is NaN and not \<open>0\<close>.
\<close>

theorem calc_zero_total_counterexample:
  "traffic.progress
     (calc \<lparr>uid = ''p1'', type = ''remote'', name = ''sub'', desc = ''-'',
            url = ''https://example.org/sub'', updated = None, option = None,
            extra = Some \<lparr>download = Fin 0, upload = Fin 0, total = Fin 0, expire = Fin 0\<rparr>\<rparr>)
   = NaN"
  by (simp add: calc_def Let_def)

text \<open>
  C2. In every state a card can reach, a handler with a call in flight drops a new
  trigger: the state, and with it the list of calls made, stays as it is. A handler with
  no call in flight (and, for select, a card that is not selected) makes exactly one call
  on the first trigger, and a second trigger before that call settles changes nothing.
\<close>

theorem lock_drops_trigger:
  assumes "s = run es (init_card it sel csel h)"
  shows
   "(0 < in_flight HandleSelect s \<longrightarrow> handleSelect s = s) \<and>
    (0 < in_flight HandleUpdate s \<longrightarrow> handleUpdate proxy s = s) \<and>
    (0 < in_flight HandleDelete s \<longrightarrow> handleDelete s = s) \<and>
    (in_flight HandleSelect s = 0 \<and> \<not> selected s \<longrightarrow>
       handleSelect (handleSelect s) = handleSelect s \<and>
       trace (handleSelect s) = trace s @ [SetProfilesConfig (uid (item s))] \<and>
       in_flight HandleSelect (handleSelect s) = 1) \<and>
    (in_flight HandleUpdate s = 0 \<longrightarrow>
       handleUpdate proxy' (handleUpdate proxy s) = handleUpdate proxy s \<and>
       length (trace (handleUpdate proxy s)) = Suc (length (trace s)) \<and>
       in_flight HandleUpdate (handleUpdate proxy s) = 1) \<and>
    (in_flight HandleDelete s = 0 \<longrightarrow>
       handleDelete (handleDelete s) = handleDelete s \<and>
       trace (handleDelete s) = trace s @ [DeleteProfile (uid (item s))] \<and>
       in_flight HandleDelete (handleDelete s) = 1)"
proof -
  have st: "settled s" unfolding assms by (rule settled_reachable)
  note l = settled_locks [OF st]
  show ?thesis
  proof (intro conjI impI)
    assume "0 < in_flight HandleSelect s"
    then show "handleSelect s = s" using l(1) by (simp add: locked_noop)
  next
    assume "0 < in_flight HandleUpdate s"
    then show "handleUpdate proxy s = s" using l(2) by (simp add: locked_noop)
  next
    assume "0 < in_flight HandleDelete s"
    then show "handleDelete s = s" using l(3) by (simp add: locked_noop)
  next
    assume a: "in_flight HandleSelect s = 0 \<and> \<not> selected s"
    then have f: "\<not> lock_select s" "\<not> selected s" using l(1) by simp_all
    show "handleSelect (handleSelect s) = handleSelect s"
      by (rule locked_noop) (simp add: handleSelect_free [OF f])
    show "trace (handleSelect s) = trace s @ [SetProfilesConfig (uid (item s))]"
      by (simp add: handleSelect_free [OF f])
    show "in_flight HandleSelect (handleSelect s) = 1"
      using a by (simp add: handleSelect_free [OF f] in_flight_def)
  next
    assume a: "in_flight HandleUpdate s = 0"
    then have f: "\<not> lock_update s" using l(2) by simp
    show "handleUpdate proxy' (handleUpdate proxy s) = handleUpdate proxy s"
      by (rule locked_noop) (simp add: handleUpdate_free [OF f])
    show "length (trace (handleUpdate proxy s)) = Suc (length (trace s))"
      by (simp add: handleUpdate_free [OF f])
    show "in_flight HandleUpdate (handleUpdate proxy s) = 1"
      using a by (simp add: handleUpdate_free [OF f] in_flight_def)
  next
    assume a: "in_flight HandleDelete s = 0"
    then have f: "\<not> lock_delete s" using l(3) by simp
    show "handleDelete (handleDelete s) = handleDelete s"
      by (rule locked_noop) (simp add: handleDelete_free [OF f])
    show "trace (handleDelete s) = trace s @ [DeleteProfile (uid (item s))]"
      by (simp add: handleDelete_free [OF f])
    show "in_flight HandleDelete (handleDelete s) = 1"
      using a by (simp add: handleDelete_free [OF f] in_flight_def)
  qed
qed

theorem lock_drops_trigger_witness:
  "0 < in_flight HandleSelect
         (run [CardClick, UpdateButtonClick, MenuItemClick Delete]
            (init_card example_item False False [])) \<and>
   0 < in_flight HandleUpdate
         (run [CardClick, UpdateButtonClick, MenuItemClick Delete]
            (init_card example_item False False [])) \<and>
   0 < in_flight HandleDelete
         (run [CardClick, UpdateButtonClick, MenuItemClick Delete]
            (init_card example_item False False [])) \<and>
   handleSelect (run [CardClick, UpdateButtonClick, MenuItemClick Delete]
            (init_card example_item False False []))
     = run [CardClick, UpdateButtonClick, MenuItemClick Delete]
            (init_card example_item False False []) \<and>
   handleUpdate True (run [CardClick, UpdateButtonClick, MenuItemClick Delete]
            (init_card example_item False False []))
     = run [CardClick, UpdateButtonClick, MenuItemClick Delete]
            (init_card example_item False False []) \<and>
   handleDelete (run [CardClick, UpdateButtonClick, MenuItemClick Delete]
            (init_card example_item False False []))
     = run [CardClick, UpdateButtonClick, MenuItemClick Delete]
            (init_card example_item False False []) \<and>
   in_flight HandleSelect (init_card example_item False False []) = 0 \<and>
   \<not> selected (init_card example_item False False []) \<and>
   handleSelect (handleSelect (init_card example_item False False []))
     = handleSelect (init_card example_item False False []) \<and>
   handleUpdate True (handleUpdate False (init_card example_item False False []))
     = handleUpdate False (init_card example_item False False []) \<and>
   handleDelete (handleDelete (init_card example_item False False []))
     = handleDelete (init_card example_item False False [])"
proof -
  let ?s0 = "init_card example_item False False []"
  let ?es = "[CardClick, UpdateButtonClick, MenuItemClick Delete]"
  have b: "0 < in_flight HandleSelect (run ?es ?s0)"
      "0 < in_flight HandleUpdate (run ?es ?s0)"
      "0 < in_flight HandleDelete (run ?es ?s0)"
    unfolding example_busy by (simp_all add: in_flight_def)
  from lock_drops_trigger [of "run ?es ?s0" ?es example_item False False "[]" True, OF refl] b
  have 1: "handleSelect (run ?es ?s0) = run ?es ?s0"
    "handleUpdate True (run ?es ?s0) = run ?es ?s0"
    "handleDelete (run ?es ?s0) = run ?es ?s0"
    by blast+
  have r: "?s0 = run [] ?s0" by simp
  from lock_drops_trigger [of ?s0 "[]" example_item False False "[]" False True, OF r]
    example_idle
  have 2: "handleSelect (handleSelect ?s0) = handleSelect ?s0"
    "handleUpdate True (handleUpdate False ?s0) = handleUpdate False ?s0"
    "handleDelete (handleDelete ?s0) = handleDelete ?s0"
    by blast+
  from b 1 2 example_idle(1,2) show ?thesis by blast
qed

text \<open>
  C3. Every event extends the calls made so far. A click on a card that is not selected
  and whose select lock is free calls \<open>setProfilesConfig\<close> and nothing else, and waits for
  it. When that call resolves, \<open>deleteConnections\<close> is called; when it rejects,
  \<open>deleteConnections\<close> is not called and nothing of the select action stays pending. No
  other event calls \<open>deleteConnections\<close>.
\<close>

theorem select_sequential:
  "trace (step e s) = trace s @ emitted e s \<and>
   (\<not> selected s \<and> \<not> lock_select s \<longrightarrow>
      emitted CardClick s = [SetProfilesConfig (uid (item s))] \<and>
      pending (step CardClick s) = pending s @ [AfterSetProfilesConfig]) \<and>
   (i < length (pending s) \<and> pending s ! i = AfterSetProfilesConfig \<longrightarrow>
      emitted (Settle i Resolved) s = [DeleteConnections] \<and>
      pending (step (Settle i Resolved) s) = remove_nth i (pending s) @ [AfterDeleteConnections] \<and>
      DeleteConnections \<notin> set (emitted (Settle i (Rejected err)) s) \<and>
      pending (step (Settle i (Rejected err)) s) = remove_nth i (pending s)) \<and>
   (DeleteConnections \<in> set (emitted e s) \<longrightarrow>
      (\<exists>j. e = Settle j Resolved \<and> j < length (pending s) \<and>
           pending s ! j = AfterSetProfilesConfig))"
proof (intro conjI impI)
  show "trace (step e s) = trace s @ emitted e s" by (rule trace_step)
next
  assume "\<not> selected s \<and> \<not> lock_select s"
  then show "emitted CardClick s = [SetProfilesConfig (uid (item s))]"
    by (simp add: emitted_def emitted_handleSelect)
next
  assume "\<not> selected s \<and> \<not> lock_select s"
  then show "pending (step CardClick s) = pending s @ [AfterSetProfilesConfig]"
    by (simp add: handler_defs)
next
  assume a: "i < length (pending s) \<and> pending s ! i = AfterSetProfilesConfig"
  then show "emitted (Settle i Resolved) s = [DeleteConnections]"
    by (simp add: emitted_settle)
  from a show "pending (step (Settle i Resolved) s) =
      remove_nth i (pending s) @ [AfterDeleteConnections]"
    by (simp add: handler_defs)
  from a show "DeleteConnections \<notin> set (emitted (Settle i (Rejected err)) s)"
    by (simp add: emitted_settle)
  from a show "pending (step (Settle i (Rejected err)) s) = remove_nth i (pending s)"
    by (simp add: handler_defs)
next
  assume d: "DeleteConnections \<in> set (emitted e s)"
  show "\<exists>j. e = Settle j Resolved \<and> j < length (pending s) \<and>
           pending s ! j = AfterSetProfilesConfig"
  proof (cases e)
    case (Settle j r)
    show ?thesis
    proof (cases "j < length (pending s)")
      case True
      with d Settle show ?thesis
        by (cases "pending s ! j"; cases r) (simp_all add: emitted_settle)
    next
      case False
      with d Settle show ?thesis by (simp add: emitted_settle_out)
    qed
  next
    case (MenuItemClick k)
    with d show ?thesis
      by (simp add: emitted_menu_item emitted_menuMapping split: menu_key.splits if_splits)
  next
    case CardClick
    with d show ?thesis by (simp add: emitted_def emitted_handleSelect split: if_splits)
  next
    case UpdateButtonClick
    with d show ?thesis by (simp add: emitted_def emitted_handleUpdate split: if_splits)
  qed (use d in \<open>simp_all add: emitted_def call_def\<close>)
qed

theorem select_sequential_witness:
  "\<not> selected (init_card example_item False False []) \<and>
   \<not> lock_select (init_card example_item False False []) \<and>
   emitted CardClick (init_card example_item False False []) = [SetProfilesConfig ''p1''] \<and>
   pending (run [CardClick] (init_card example_item False False [])) ! 0
     = AfterSetProfilesConfig \<and>
   emitted (Settle 0 Resolved) (run [CardClick] (init_card example_item False False []))
     = [DeleteConnections] \<and>
   DeleteConnections \<notin> set (emitted (Settle 0 (Rejected (Thrown ''x'')))
     (run [CardClick] (init_card example_item False False []))) \<and>
   DeleteConnections \<in> set (emitted (Settle 0 Resolved)
     (run [CardClick] (init_card example_item False False []))) \<and>
   (\<exists>j. Settle 0 Resolved = Settle j Resolved \<and>
        j < length (pending (run [CardClick] (init_card example_item False False []))) \<and>
        pending (run [CardClick] (init_card example_item False False [])) ! j
          = AfterSetProfilesConfig)"
proof -
  let ?s0 = "init_card example_item False False []"
  let ?s1 = "run [CardClick] ?s0"
  have h0: "\<not> selected ?s0 \<and> \<not> lock_select ?s0" by (simp add: init_card_def)
  have u: "uid (item ?s0) = ''p1''" by (simp add: init_card_def example_item_def)
  have h1: "0 < length (pending ?s1) \<and> pending ?s1 ! 0 = AfterSetProfilesConfig"
    unfolding example_select by simp
  from select_sequential [of CardClick ?s0 0 "Thrown ''x''"] h0 u
  have a: "emitted CardClick ?s0 = [SetProfilesConfig ''p1'']" by simp
  from select_sequential [of CardClick ?s1 0 "Thrown ''x''"] h1
  have b: "emitted (Settle 0 Resolved) ?s1 = [DeleteConnections]"
    and c: "DeleteConnections \<notin> set (emitted (Settle 0 (Rejected (Thrown ''x''))) ?s1)"
    by blast+
  from b have d: "DeleteConnections \<in> set (emitted (Settle 0 Resolved) ?s1)" by simp
  from select_sequential [of "Settle 0 Resolved" ?s1 0 "Thrown ''x''"] d
  have e: "\<exists>j. Settle 0 Resolved = Settle j Resolved \<and> j < length (pending ?s1) \<and>
      pending ?s1 ! j = AfterSetProfilesConfig"
    by blast
  from h0 h1 a b c d e show ?thesis by blast
qed

text \<open>
  C4. With the item's reference valid, an update via proxy passes
  \<open>{with_proxy: false, self_proxy: true}\<close> when the stored (or default) options have
  \<open>self_proxy\<close> set and \<open>{with_proxy: true, self_proxy: false}\<close> otherwise; an update
  not via proxy passes the stored (or default) options as they are. These are the
  options of the \<open>updateProfile\<close> call an unlocked \<open>handleUpdate\<close> makes.
\<close>

theorem update_options:
  assumes "valid_item h it"
  shows "options_passed h it True =
           (if self_proxy (stored_or_default h it)
            then \<lparr>with_proxy = False, self_proxy = True\<rparr>
            else \<lparr>with_proxy = True, self_proxy = False\<rparr>) \<and>
         options_passed h it False = stored_or_default h it \<and>
         (\<not> lock_update s \<longrightarrow>
            trace (handleUpdate proxy s) =
              trace s @ [UpdateProfile (uid (item s)) (options_passed (heap s) (item s) proxy)])"
  using assms
  by (auto simp add: options_passed_def stored_or_default_def valid_item_def
      handleUpdate_options_def alloc_def store_with_proxy_def store_self_proxy_def
      handler_defs
      split: option.splits prod.splits)

theorem update_options_witness:
  "valid_item [\<lparr>with_proxy = False, self_proxy = True\<rparr>] (example_item\<lparr>option := Some 0\<rparr>) \<and>
   options_passed [\<lparr>with_proxy = False, self_proxy = True\<rparr>] (example_item\<lparr>option := Some 0\<rparr>) True
     = \<lparr>with_proxy = False, self_proxy = True\<rparr> \<and>
   options_passed [\<lparr>with_proxy = False, self_proxy = True\<rparr>] (example_item\<lparr>option := Some 0\<rparr>) False
     = \<lparr>with_proxy = False, self_proxy = True\<rparr> \<and>
   valid_item [] example_item \<and>
   options_passed [] example_item True = \<lparr>with_proxy = True, self_proxy = False\<rparr> \<and>
   options_passed [] example_item False = \<lparr>with_proxy = False, self_proxy = False\<rparr> \<and>
   \<not> lock_update (init_card example_item False False []) \<and>
   trace (handleUpdate True (init_card example_item False False [])) =
     [UpdateProfile ''p1'' \<lparr>with_proxy = True, self_proxy = False\<rparr>]"
proof -
  let ?h = "[\<lparr>with_proxy = False, self_proxy = True\<rparr>]"
  let ?it = "example_item\<lparr>option := Some 0\<rparr>"
  let ?s = "init_card example_item False False []"
  have v1: "valid_item ?h ?it" by (simp add: valid_item_def)
  have v2: "valid_item [] example_item" by (simp add: valid_item_def example_item_def)
  have l: "\<not> lock_update ?s" by (simp add: init_card_def)
  have e: "heap ?s = []" "item ?s = example_item" "trace ?s = []" "uid example_item = ''p1''"
    by (simp_all add: init_card_def example_item_def)
  from update_options [OF v1, of ?s True] update_options [OF v2, of ?s True] v1 v2 l e
  show ?thesis by (simp add: stored_or_default_def example_item_def)
qed

text \<open>
  C5. In every state a card can reach, \<open>loading.card\<close> is true exactly while a call of
  the select action is in flight, and \<open>loading.update\<close> exactly while \<open>updateProfile\<close> is.
  Triggering raises the flag; \<open>updateProfile\<close> settling either way lowers
  \<open>loading.update\<close>; \<open>setProfilesConfig\<close> rejecting, or \<open>deleteConnections\<close> settling
  either way, lowers \<open>loading.card\<close>, which stays up when \<open>setProfilesConfig\<close> resolves
  and \<open>deleteConnections\<close> is awaited.
\<close>

theorem loading_flags_reset:
  assumes "s = run es (init_card it sel csel h)"
  shows
   "loading_card s = (0 < in_flight HandleSelect s) \<and>
    loading_update s = (0 < in_flight HandleUpdate s) \<and>
    (in_flight HandleSelect s = 0 \<and> \<not> selected s \<longrightarrow> loading_card (handleSelect s)) \<and>
    (in_flight HandleUpdate s = 0 \<longrightarrow> loading_update (handleUpdate proxy s)) \<and>
    (i < length (pending s) \<and> pending s ! i = AfterUpdateProfile \<longrightarrow>
       \<not> loading_update (step (Settle i r) s)) \<and>
    (i < length (pending s) \<and> pending s ! i = AfterSetProfilesConfig \<longrightarrow>
       \<not> loading_card (step (Settle i (Rejected err)) s) \<and>
       loading_card (step (Settle i Resolved) s)) \<and>
    (i < length (pending s) \<and> pending s ! i = AfterDeleteConnections \<longrightarrow>
       \<not> loading_card (step (Settle i r) s))"
proof -
  have st: "settled s" unfolding assms by (rule settled_reachable)
  note l = settled_locks [OF st]
  have ld: "loading_card s = lock_select s" "loading_update s = lock_update s"
    using st by (simp_all add: settled_def)
  show ?thesis
  proof (intro conjI impI)
    show "loading_card s = (0 < in_flight HandleSelect s)" using ld l by simp
    show "loading_update s = (0 < in_flight HandleUpdate s)" using ld l by simp
  next
    assume "in_flight HandleSelect s = 0 \<and> \<not> selected s"
    then have f: "\<not> lock_select s" "\<not> selected s" using l(1) by simp_all
    show "loading_card (handleSelect s)" by (simp add: handleSelect_free [OF f])
  next
    assume "in_flight HandleUpdate s = 0"
    then have f: "\<not> lock_update s" using l(2) by simp
    show "loading_update (handleUpdate proxy s)" by (simp add: handleUpdate_free [OF f])
  next
    assume "i < length (pending s) \<and> pending s ! i = AfterUpdateProfile"
    then show "\<not> loading_update (step (Settle i r) s)"
      by (cases r) (simp_all add: handler_defs)
  next
    assume a: "i < length (pending s) \<and> pending s ! i = AfterSetProfilesConfig"
    then show "\<not> loading_card (step (Settle i (Rejected err)) s)"
      by (simp add: handler_defs)
    have "0 < in_flight HandleSelect s"
      using a unfolding in_flight_def
      by (metis (mono_tags, lifting) filter_empty_conv length_greater_0_conv nth_mem owner.simps(1))
    then have "loading_card s" using ld l by simp
    then show "loading_card (step (Settle i Resolved) s)"
      using a by (simp add: handler_defs)
  next
    assume "i < length (pending s) \<and> pending s ! i = AfterDeleteConnections"
    then show "\<not> loading_card (step (Settle i r) s)"
      by (cases r) (simp_all add: handler_defs)
  qed
qed

theorem loading_flags_reset_witness:
  "in_flight HandleSelect (init_card example_item False False []) = 0 \<and>
   \<not> selected (init_card example_item False False []) \<and>
   loading_card (handleSelect (init_card example_item False False [])) \<and>
   in_flight HandleUpdate (init_card example_item False False []) = 0 \<and>
   loading_update (handleUpdate True (init_card example_item False False [])) \<and>
   pending (run [CardClick, UpdateButtonClick, MenuItemClick Delete]
              (init_card example_item False False [])) ! 1 = AfterUpdateProfile \<and>
   \<not> loading_update (step (Settle 1 (Rejected (Thrown ''x'')))
        (run [CardClick, UpdateButtonClick, MenuItemClick Delete]
              (init_card example_item False False []))) \<and>
   pending (run [CardClick, UpdateButtonClick, MenuItemClick Delete]
              (init_card example_item False False [])) ! 0 = AfterSetProfilesConfig \<and>
   \<not> loading_card (step (Settle 0 (Rejected (Thrown ''x'')))
        (run [CardClick, UpdateButtonClick, MenuItemClick Delete]
              (init_card example_item False False []))) \<and>
   pending (run [CardClick, Settle 0 Resolved] (init_card example_item False False [])) ! 0
     = AfterDeleteConnections \<and>
   \<not> loading_card (step (Settle 0 (Rejected (Thrown ''x'')))
        (run [CardClick, Settle 0 Resolved] (init_card example_item False False [])))"
proof -
  let ?s0 = "init_card example_item False False []"
  let ?es = "[CardClick, UpdateButtonClick, MenuItemClick Delete]"
  let ?es' = "[CardClick, Settle 0 Resolved]"
  let ?r = "Rejected (Thrown ''x'')"
  have r: "?s0 = run [] ?s0" by simp
  from loading_flags_reset [of ?s0 "[]" example_item False False "[]" True 0 ?r "Thrown ''x''", OF r]
    example_idle
  have 1: "loading_card (handleSelect ?s0)" "loading_update (handleUpdate True ?s0)"
    by blast+
  have p: "1 < length (pending (run ?es ?s0)) \<and> pending (run ?es ?s0) ! 1 = AfterUpdateProfile"
    "0 < length (pending (run ?es ?s0)) \<and> pending (run ?es ?s0) ! 0 = AfterSetProfilesConfig"
    unfolding example_busy by simp_all
  from loading_flags_reset [of "run ?es ?s0" ?es example_item False False "[]" True 1 ?r "Thrown ''x''", OF refl] p(1)
  have 2: "\<not> loading_update (step (Settle 1 ?r) (run ?es ?s0))" by blast
  from loading_flags_reset [of "run ?es ?s0" ?es example_item False False "[]" True 0 ?r "Thrown ''x''", OF refl] p(2)
  have 3: "\<not> loading_card (step (Settle 0 ?r) (run ?es ?s0))" by blast
  have q: "0 < length (pending (run ?es' ?s0)) \<and> pending (run ?es' ?s0) ! 0 = AfterDeleteConnections"
    unfolding example_clearing by simp
  from loading_flags_reset [of "run ?es' ?s0" ?es' example_item False False "[]" True 0 ?r "Thrown ''x''", OF refl] q
  have 4: "\<not> loading_card (step (Settle 0 ?r) (run ?es' ?s0))" by blast
  from 1 2 3 4 p q example_idle show ?thesis by blast
qed

text \<open>
  C6, as the code has it. While the display is mounted and its filtered list is empty,
  no snippet is rendered, and the display holds one live interval: the effect sets the
  interval whatever the list is.
\<close>

theorem empty_display:
  assumes "Unmount \<notin> set es" and "c = carousel_run es (TextCarousel ns)" and "nodes c = []"
  shows "render c = [] \<and> armed c"
  using assms by (simp add: render_no_nodes armed_run armed_mount)

theorem empty_display_witness:
  "Unmount \<notin> set [Tick, Click :: snippet carousel_event] \<and>
   nodes (carousel_run [Tick, Click] (TextCarousel (card_nodes example_item))) = [] \<and>
   render (carousel_run [Tick, Click] (TextCarousel (card_nodes example_item))) = [] \<and>
   armed (carousel_run [Tick, Click] (TextCarousel (card_nodes example_item)))"
proof -
  have n: "nodes (carousel_run [Tick, Click] (TextCarousel (card_nodes example_item))) = []"
    by (simp add: nodes_def List.map_filter_def card_nodes_def example_item_def TextCarousel_def
        effect_run_def effect_cleanup_def nextNode_def)
  have u: "Unmount \<notin> set [Tick, Click :: snippet carousel_event]" by simp
  from empty_display [OF u refl n] u n show ?thesis by simp
qed

text \<open>
  C6 as stated fails: the display of a card without update time and usage has an empty
  filtered list, and mounting it leaves the interval \<open>0\<close> live.
\<close>

theorem empty_display_timer_counterexample:
  "nodes (TextCarousel (card_nodes
      \<lparr>uid = ''p1'', type = ''remote'', name = ''sub'', desc = ''-'', url = ''https://example.org/sub'',
       updated = None, option = None, extra = None\<rparr>)) = [] \<and>
   intervals (TextCarousel (card_nodes
      \<lparr>uid = ''p1'', type = ''remote'', name = ''sub'', desc = ''-'', url = ''https://example.org/sub'',
       updated = None, option = None, extra = None\<rparr>)) = [0]"
  by (simp add: nodes_def List.map_filter_def card_nodes_def TextCarousel_def effect_run_def)

text \<open>
  C7 fails on the code. The item has stored options \<open>{with_proxy: false, self_proxy:
  false}\<close>; after \<open>handleUpdate(true)\<close> the stored object is \<open>{with_proxy: true,
  self_proxy: false}\<close>: \<open>options\<close> is the item's own object, and the assignments write
  into it. A later plain update of the same item then goes out with \<open>with_proxy\<close> set, as
  the update via proxy before it did.
\<close>

theorem handleUpdate_writes_item_option:
  "heap (handleUpdate True
     (init_card \<lparr>uid = ''p1'', type = ''remote'', name = ''sub'', desc = ''-'',
                 url = ''https://example.org/sub'', updated = None, option = Some 0,
                 extra = None\<rparr> False False
        [\<lparr>with_proxy = False, self_proxy = False\<rparr>]))
   = [\<lparr>with_proxy = True, self_proxy = False\<rparr>] \<and>
   trace (run [MenuItemClick UpdateProxy, Settle 0 Resolved, UpdateButtonClick]
     (init_card \<lparr>uid = ''p1'', type = ''remote'', name = ''sub'', desc = ''-'',
                 url = ''https://example.org/sub'', updated = None, option = Some 0,
                 extra = None\<rparr> False False
        [\<lparr>with_proxy = False, self_proxy = False\<rparr>]))
   = [UpdateProfile ''p1'' \<lparr>with_proxy = True, self_proxy = False\<rparr>,
      UpdateProfile ''p1'' \<lparr>with_proxy = True, self_proxy = False\<rparr>]"
  by (simp add: init_card_def handler_defs handleUpdate_options_def store_with_proxy_def
      store_self_proxy_def remove_nth_def)

text \<open>
  C8. A rejection of \<open>updateProfile\<close> calls nothing: no \<open>message\<close>; the error leaves the
  handler uncaught. Neither does triggering an update call \<open>message\<close>. A rejection of
  \<open>setProfilesConfig\<close> or \<open>deleteConnections\<close> calls \<open>message\<close> once, and so does a
  rejection of \<open>deleteProfile\<close>.
\<close>

theorem update_failure_silent:
  "(i < length (pending s) \<and> pending s ! i = AfterUpdateProfile \<longrightarrow>
      emitted (Settle i (Rejected err)) s = [] \<and>
      unhandled (step (Settle i (Rejected err)) s) = unhandled s @ [err]) \<and>
   Message n \<notin> set (emitted UpdateButtonClick s) \<and>
   Message n \<notin> set (emitted (MenuItemClick Update) s) \<and>
   Message n \<notin> set (emitted (MenuItemClick UpdateProxy) s) \<and>
   (i < length (pending s) \<and>
    (pending s ! i = AfterSetProfilesConfig \<or> pending s ! i = AfterDeleteConnections) \<longrightarrow>
      emitted (Settle i (Rejected err)) s =
        [Message (if is_fetch_error err then FetchErrorNotice
                  else ErrorSettingProfile (error_text err))]) \<and>
   (i < length (pending s) \<and> pending s ! i = AfterDeleteProfile \<longrightarrow>
      emitted (Settle i (Rejected err)) s = [Message (DeleteFailed err)])"
proof (intro conjI impI)
  assume a: "i < length (pending s) \<and> pending s ! i = AfterUpdateProfile"
  then show "emitted (Settle i (Rejected err)) s = []" by (simp add: emitted_settle)
  from a show "unhandled (step (Settle i (Rejected err)) s) = unhandled s @ [err]"
    by (simp add: handler_defs)
next
  show "Message n \<notin> set (emitted UpdateButtonClick s)"
    by (simp add: emitted_def emitted_handleUpdate)
  show "Message n \<notin> set (emitted (MenuItemClick Update) s)"
    by (simp add: emitted_menu_item emitted_handleUpdate)
  show "Message n \<notin> set (emitted (MenuItemClick UpdateProxy) s)"
    by (simp add: emitted_menu_item emitted_handleUpdate)
next
  assume "i < length (pending s) \<and>
    (pending s ! i = AfterSetProfilesConfig \<or> pending s ! i = AfterDeleteConnections)"
  then show "emitted (Settle i (Rejected err)) s =
        [Message (if is_fetch_error err then FetchErrorNotice
                  else ErrorSettingProfile (error_text err))]"
    by (auto simp add: emitted_settle)
next
  assume "i < length (pending s) \<and> pending s ! i = AfterDeleteProfile"
  then show "emitted (Settle i (Rejected err)) s = [Message (DeleteFailed err)]"
    by (simp add: emitted_settle)
qed

theorem update_failure_silent_witness:
  "pending (run [UpdateButtonClick] (init_card example_item False False [])) ! 0
     = AfterUpdateProfile \<and>
   emitted (Settle 0 (Rejected (Error ''FetchError'' ''no route'')))
     (run [UpdateButtonClick] (init_card example_item False False [])) = [] \<and>
   pending (run [CardClick] (init_card example_item False False [])) ! 0
     = AfterSetProfilesConfig \<and>
   emitted (Settle 0 (Rejected (Error ''FetchError'' ''no route'')))
     (run [CardClick] (init_card example_item False False [])) = [Message FetchErrorNotice] \<and>
   pending (run [MenuItemClick Delete] (init_card example_item False False [])) ! 0
     = AfterDeleteProfile \<and>
   emitted (Settle 0 (Rejected (Error ''FetchError'' ''no route'')))
     (run [MenuItemClick Delete] (init_card example_item False False []))
     = [Message (DeleteFailed (Error ''FetchError'' ''no route''))]"
proof -
  let ?s0 = "init_card example_item False False []"
  let ?e = "Error ''FetchError'' ''no route''"
  have u: "0 < length (pending (run [UpdateButtonClick] ?s0)) \<and>
           pending (run [UpdateButtonClick] ?s0) ! 0 = AfterUpdateProfile"
    unfolding example_update by simp
  have c: "0 < length (pending (run [CardClick] ?s0)) \<and>
           pending (run [CardClick] ?s0) ! 0 = AfterSetProfilesConfig"
    unfolding example_select by simp
  have d: "0 < length (pending (run [MenuItemClick Delete] ?s0)) \<and>
           pending (run [MenuItemClick Delete] ?s0) ! 0 = AfterDeleteProfile"
    unfolding example_delete by simp
  from update_failure_silent [of 0 "run [UpdateButtonClick] ?s0" ?e] u
  have 1: "emitted (Settle 0 (Rejected ?e)) (run [UpdateButtonClick] ?s0) = []" by blast
  from update_failure_silent [of 0 "run [CardClick] ?s0" ?e] c
  have 2: "emitted (Settle 0 (Rejected ?e)) (run [CardClick] ?s0) = [Message FetchErrorNotice]"
    by simp
  from update_failure_silent [of 0 "run [MenuItemClick Delete] ?s0" ?e] d
  have 3: "emitted (Settle 0 (Rejected ?e)) (run [MenuItemClick Delete] ?s0)
      = [Message (DeleteFailed ?e)]"
    by blast
  from 1 2 3 u c d show ?thesis by blast
qed



text \<open>
  C10. In every state a card can reach at most one \<open>updateProfile\<close> call is in flight.
  While one is, \<open>loading.update\<close> is true and both entries, \<open>Update\<close> and
  \<open>Update(Proxy)\<close>, change nothing, from the button and from the menu (which only
  closes). With none in flight either entry starts one call and raises \<open>loading.update\<close>,
  and the other entry is then dropped.
\<close>

theorem update_entries_share_lock:
  assumes "s = run es (init_card it sel csel h)"
  shows
   "in_flight HandleUpdate s \<le> 1 \<and>
    (0 < in_flight HandleUpdate s \<longrightarrow>
       loading_update s \<and>
       menuMapping Update s = s \<and> menuMapping UpdateProxy s = s \<and>
       step UpdateButtonClick s = s \<and>
       step (MenuItemClick Update) s = s\<lparr>anchorEl := None\<rparr> \<and>
       step (MenuItemClick UpdateProxy) s = s\<lparr>anchorEl := None\<rparr>) \<and>
    (in_flight HandleUpdate s = 0 \<longrightarrow>
       in_flight HandleUpdate (menuMapping Update s) = 1 \<and>
       in_flight HandleUpdate (menuMapping UpdateProxy s) = 1 \<and>
       loading_update (menuMapping Update s) \<and>
       loading_update (menuMapping UpdateProxy s) \<and>
       menuMapping UpdateProxy (menuMapping Update s) = menuMapping Update s \<and>
       menuMapping Update (menuMapping UpdateProxy s) = menuMapping UpdateProxy s)"
proof -
  have st: "settled s" unfolding assms by (rule settled_reachable)
  note l = settled_locks(2) [OF st]
  have ld: "loading_update s = lock_update s" using st by (simp add: settled_def)
  show ?thesis
  proof (intro conjI impI)
    show "in_flight HandleUpdate s \<le> 1" using st by (simp add: settled_def)
  next
    assume a: "0 < in_flight HandleUpdate s"
    then have k: "lock_update s" using l by simp
    show "loading_update s" using k ld by simp
    show "menuMapping Update s = s" using k by (simp add: locked_noop)
    show "menuMapping UpdateProxy s = s" using k by (simp add: locked_noop)
    show "step UpdateButtonClick s = s" using k by (simp add: locked_noop)
    have k': "lock_update (s\<lparr>anchorEl := None\<rparr>)" using k by simp
    show "step (MenuItemClick Update) s = s\<lparr>anchorEl := None\<rparr>"
      by (simp add: handleClick_def locked_noop(2) [OF k'])
    show "step (MenuItemClick UpdateProxy) s = s\<lparr>anchorEl := None\<rparr>"
      by (simp add: handleClick_def locked_noop(2) [OF k'])
  next
    assume a: "in_flight HandleUpdate s = 0"
    then have f: "\<not> lock_update s" using l by simp
    show "in_flight HandleUpdate (menuMapping Update s) = 1"
      using a by (simp add: handleUpdate_free [OF f] in_flight_def)
    show "in_flight HandleUpdate (menuMapping UpdateProxy s) = 1"
      using a by (simp add: handleUpdate_free [OF f] in_flight_def)
    show "loading_update (menuMapping Update s)"
      by (simp add: handleUpdate_free [OF f])
    show "loading_update (menuMapping UpdateProxy s)"
      by (simp add: handleUpdate_free [OF f])
    have "lock_update (handleUpdate False s)" "lock_update (handleUpdate True s)"
      by (simp_all add: handleUpdate_free [OF f])
    then show "menuMapping UpdateProxy (menuMapping Update s) = menuMapping Update s"
      and "menuMapping Update (menuMapping UpdateProxy s) = menuMapping UpdateProxy s"
      by (simp_all add: locked_noop)
  qed
qed

theorem update_entries_share_lock_witness:
  "0 < in_flight HandleUpdate (run [UpdateButtonClick] (init_card example_item False False [])) \<and>
   menuMapping UpdateProxy (run [UpdateButtonClick] (init_card example_item False False []))
     = run [UpdateButtonClick] (init_card example_item False False []) \<and>
   menuMapping Update (run [UpdateButtonClick] (init_card example_item False False []))
     = run [UpdateButtonClick] (init_card example_item False False []) \<and>
   in_flight HandleUpdate (init_card example_item False False []) = 0 \<and>
   in_flight HandleUpdate (menuMapping UpdateProxy (init_card example_item False False [])) = 1 \<and>
   menuMapping Update (menuMapping UpdateProxy (init_card example_item False False []))
     = menuMapping UpdateProxy (init_card example_item False False [])"
proof -
  let ?s0 = "init_card example_item False False []"
  let ?s1 = "run [UpdateButtonClick] ?s0"
  have b: "0 < in_flight HandleUpdate ?s1"
    unfolding example_update by (simp add: in_flight_def)
  from update_entries_share_lock [of ?s1 "[UpdateButtonClick]" example_item False False "[]", OF refl] b
  have 1: "menuMapping UpdateProxy ?s1 = ?s1" "menuMapping Update ?s1 = ?s1"
    by blast+
  have r: "?s0 = run [] ?s0" by simp
  from update_entries_share_lock [of ?s0 "[]" example_item False False "[]", OF r] example_idle(3)
  have 2: "in_flight HandleUpdate (menuMapping UpdateProxy ?s0) = 1"
    "menuMapping Update (menuMapping UpdateProxy ?s0) = menuMapping UpdateProxy ?s0"
    by blast+
  from b 1 2 example_idle(3) show ?thesis by blast
qed

end
